theory Spec2Isabelle
  imports Main
begin

section \<open>Python strings\<close>

text \<open>
  A Python \<open>str\<close> is a sequence of Unicode code points; it is modelled as a list of
  natural numbers.  ASCII literals of the sources are written through \<open>asc\<close>, the Cyrillic
  literals are spelled out as code points (the transliteration is given beside each).
\<close>

type_synonym ustr = "nat list"

definition asc :: "string \<Rightarrow> ustr" where
  "asc s = map of_char s"

text \<open>\<open>str.isspace\<close> for one code point: the Unicode white space characters.\<close>

definition is_space :: "nat \<Rightarrow> bool" where
  "is_space c = (c \<in> set [9, 10, 11, 12, 13, 28, 29, 30, 31, 32, 133, 160, 5760,
       8192, 8193, 8194, 8195, 8196, 8197, 8198, 8199, 8200, 8201, 8202,
       8232, 8233, 8239, 8287, 12288])"

text \<open>\<open>str.strip()\<close>: leading and trailing white space removed.\<close>

definition lstrip :: "ustr \<Rightarrow> ustr" where
  "lstrip s = dropWhile is_space s"

definition rstrip :: "ustr \<Rightarrow> ustr" where
  "rstrip s = rev (dropWhile is_space (rev s))"

definition strip :: "ustr \<Rightarrow> ustr" where
  "strip s = rstrip (lstrip s)"

text \<open>
  \<open>str.lower()\<close>.  On a text made of Basic Latin, Latin-1 and basic Cyrillic code
  points (U+0000 to U+00FF and U+0400 to U+045F, the alphabets of the two vocabularies)
  it works one code point at a time: \<open>lower_cp\<close>.  On any other text the result is the
  parameter \<open>full\<close>, which stands for Python's Unicode lower-casing.
\<close>

definition known_cp :: "nat \<Rightarrow> bool" where
  "known_cp c = (c < 256 \<or> (1024 \<le> c \<and> c \<le> 1119))"

definition lower_cp :: "nat \<Rightarrow> nat" where
  "lower_cp c =
     (if 65 \<le> c \<and> c \<le> 90 then c + 32
      else if 192 \<le> c \<and> c \<le> 222 \<and> c \<noteq> 215 then c + 32
      else if 1040 \<le> c \<and> c \<le> 1071 then c + 32
      else if 1024 \<le> c \<and> c \<le> 1039 then c + 80
      else c)"

definition lower :: "(ustr \<Rightarrow> ustr) \<Rightarrow> ustr \<Rightarrow> ustr" where
  "lower full s = (if list_all known_cp s then map lower_cp s else full s)"

text \<open>\<open>s.startswith(p)\<close>.\<close>

definition startswith :: "ustr \<Rightarrow> ustr \<Rightarrow> bool" where
  "startswith s p = (take (length p) s = p)"

text \<open>\<open>sub in s\<close> on strings: \<open>sub\<close> occurs in \<open>s\<close> as a contiguous run.\<close>

fun contains :: "ustr \<Rightarrow> ustr \<Rightarrow> bool" where
  "contains [] sub = (sub = [])"
| "contains (c # cs) sub = (startswith (c # cs) sub \<or> contains cs sub)"

text \<open>
  \<open>s.replace(old, new)\<close>: every occurrence of \<open>old\<close>, found from left to right without
  overlap, is replaced.  With an empty \<open>old\<close> Python puts \<open>new\<close> before every character
  and at the end.
\<close>

function replace :: "ustr \<Rightarrow> ustr \<Rightarrow> ustr \<Rightarrow> ustr" where
  "replace s old new =
     (if old = [] then new @ concat (map (\<lambda>c. c # new) s)
      else if s = [] then []
      else if startswith s old then new @ replace (drop (length old) s) old new
      else hd s # replace (tl s) old new)"
  by pat_completeness auto
termination
  by (relation "measure (\<lambda>(s, old, new). length s)") auto

declare replace.simps [simp del]

text \<open>\<open>sep.join(xs)\<close> on a list of strings.\<close>

fun join :: "ustr \<Rightarrow> ustr list \<Rightarrow> ustr" where
  "join sep [] = []"
| "join sep [x] = x"
| "join sep (x # y # ys) = x @ sep @ join sep (y # ys)"

text \<open>\<open>str(n)\<close> for an integer: decimal digits, with a minus sign when negative.\<close>

fun dec_nat :: "nat \<Rightarrow> ustr" where
  "dec_nat n = (if n < 10 then [48 + n] else dec_nat (n div 10) @ [48 + n mod 10])"

declare dec_nat.simps [simp del]

definition dec_int :: "int \<Rightarrow> ustr" where
  "dec_int i = (if i < 0 then 45 # dec_nat (nat (- i)) else dec_nat (nat i))"

text \<open>
  \<open>os.path.join(a, b)\<close> with POSIX separators: an absolute second component discards
  the first one.
\<close>

definition path_join :: "ustr \<Rightarrow> ustr \<Rightarrow> ustr" where
  "path_join a b =
     (if startswith b [47] then b
      else if a = [] \<or> last a = 47 then a @ b
      else a @ [47] @ b)"

section \<open>Python values and exceptions\<close>

text \<open>
  The values that travel through the handlers: what \<open>json.loads\<close> and \<open>res.json()\<close>
  produce, and the \<open>None\<close>, booleans, strings and lists the handlers build themselves.
  JSON numbers are integers here (no floating point); the pairs of a \<open>VDict\<close> carry
  distinct keys, and a key is looked up with \<open>map_of\<close>.
\<close>

datatype val =
    VNone
  | VBool bool
  | VInt int
  | VStr ustr
  | VList "val list"
  | VDict "(ustr \<times> val) list"

text \<open>
  The exceptions that can reach the handlers.  \<open>RequestException\<close> stands for the whole
  \<open>requests.RequestException\<close> family (connection errors, \<open>HTTPError\<close> of
  \<open>raise_for_status\<close>, and the \<open>JSONDecodeError\<close> of \<open>res.json()\<close>, which current
  versions of \<open>requests\<close> derive from it); it carries \<open>str(e)\<close>.
\<close>

datatype exn =
    RequestException ustr
  | KeyError
  | IndexError
  | TypeError
  | AttributeError
  | ValueError
  | OSError
  | UnicodeEncodeError

text \<open>Truth value of a Python object, as \<open>if x\<close> and \<open>not x\<close> test it.\<close>

fun truthy :: "val \<Rightarrow> bool" where
  "truthy VNone = False"
| "truthy (VBool b) = b"
| "truthy (VInt i) = (i \<noteq> 0)"
| "truthy (VStr s) = (s \<noteq> [])"
| "truthy (VList xs) = (xs \<noteq> [])"
| "truthy (VDict kvs) = (kvs \<noteq> [])"

text \<open>\<open>x.get(key, default)\<close>: only a dict has the method.\<close>

fun py_get :: "val \<Rightarrow> ustr \<Rightarrow> val \<Rightarrow> exn + val" where
  "py_get (VDict kvs) k d = (case map_of kvs k of None \<Rightarrow> Inr d | Some v \<Rightarrow> Inr v)"
| "py_get _ k d = Inl AttributeError"

text \<open>\<open>x[key]\<close> with a string key.\<close>

fun subscript_str :: "val \<Rightarrow> ustr \<Rightarrow> exn + val" where
  "subscript_str (VDict kvs) k = (case map_of kvs k of None \<Rightarrow> Inl KeyError | Some v \<Rightarrow> Inr v)"
| "subscript_str _ k = Inl TypeError"

text \<open>\<open>x[i]\<close> with a non-negative integer index; the keys of a dict are strings.\<close>

fun subscript_idx :: "val \<Rightarrow> nat \<Rightarrow> exn + val" where
  "subscript_idx (VList xs) i = (if i < length xs then Inr (xs ! i) else Inl IndexError)"
| "subscript_idx (VStr s) i = (if i < length s then Inr (VStr [s ! i]) else Inl IndexError)"
| "subscript_idx (VDict kvs) i = Inl KeyError"
| "subscript_idx _ i = Inl TypeError"

text \<open>\<open>key in x\<close> for a string \<open>key\<close>.\<close>

fun py_in :: "ustr \<Rightarrow> val \<Rightarrow> exn + bool" where
  "py_in k (VDict kvs) = Inr (k \<in> set (map fst kvs))"
| "py_in k (VList xs) = Inr (VStr k \<in> set xs)"
| "py_in k (VStr s) = Inr (contains s k)"
| "py_in k _ = Inl TypeError"

text \<open>The items a \<open>for\<close> loop or a generator expression draws from a value.\<close>

fun py_iter :: "val \<Rightarrow> exn + val list" where
  "py_iter (VList xs) = Inr xs"
| "py_iter (VStr s) = Inr (map (\<lambda>c. VStr [c]) s)"
| "py_iter (VDict kvs) = Inr (map (\<lambda>kv. VStr (fst kv)) kvs)"
| "py_iter _ = Inl TypeError"

text \<open>
  \<open>str(x)\<close>, as an f-string formats a value.  The text of a list or a dict is left to
  the parameter \<open>repr\<close>.
\<close>

fun py_str :: "(val \<Rightarrow> ustr) \<Rightarrow> val \<Rightarrow> ustr" where
  "py_str repr VNone = asc ''None''"
| "py_str repr (VBool b) = (if b then asc ''True'' else asc ''False'')"
| "py_str repr (VInt i) = dec_int i"
| "py_str repr (VStr s) = s"
| "py_str repr v = repr v"

text \<open>\<open>sep.join(xs)\<close> on a Python list: every item has to be a string.\<close>

fun strings_of :: "val list \<Rightarrow> exn + ustr list" where
  "strings_of [] = Inr []"
| "strings_of (VStr s # vs) = (case strings_of vs of Inl e \<Rightarrow> Inl e | Inr ss \<Rightarrow> Inr (s # ss))"
| "strings_of (_ # vs) = Inl TypeError"

section \<open>The json module\<close>

text \<open>
  \<open>json.dump(obj, f, ensure_ascii=False, indent=2)\<close> writes the text below: a string
  between double quotes, with the quote, the backslash and the control characters
  escaped and every other code point as it is; the items of a list and the members of a
  dict one per line, two blanks deeper than the bracket, separated by a comma; an empty
  list as \<open>[]\<close> and an empty dict as \<open>{}\<close>.
\<close>

definition hex_digit :: "nat \<Rightarrow> nat" where
  "hex_digit n = (if n < 10 then 48 + n else 87 + n)"

definition escape_char :: "nat \<Rightarrow> ustr" where
  "escape_char c =
     (if c = 34 then [92, 34]
      else if c = 92 then [92, 92]
      else if c = 10 then [92, 110]
      else if c = 13 then [92, 114]
      else if c = 9 then [92, 116]
      else if c = 8 then [92, 98]
      else if c = 12 then [92, 102]
      else if c < 32 then [92, 117, 48, 48, hex_digit (c div 16), hex_digit (c mod 16)]
      else [c])"

definition json_string :: "ustr \<Rightarrow> ustr" where
  "json_string s = [34] @ concat (map escape_char s) @ [34]"

definition newline_indent :: "nat \<Rightarrow> ustr" where
  "newline_indent level = 10 # replicate (2 * level) 32"

fun dumps_at :: "nat \<Rightarrow> val \<Rightarrow> ustr"
  and dumps_items :: "nat \<Rightarrow> val list \<Rightarrow> ustr"
  and dumps_members :: "nat \<Rightarrow> (ustr \<times> val) list \<Rightarrow> ustr" where
  "dumps_at level VNone = asc ''null''"
| "dumps_at level (VBool b) = (if b then asc ''true'' else asc ''false'')"
| "dumps_at level (VInt i) = dec_int i"
| "dumps_at level (VStr s) = json_string s"
| "dumps_at level (VList xs) =
     (if xs = [] then asc ''[]''
      else [91] @ newline_indent (Suc level) @ dumps_items (Suc level) xs
           @ newline_indent level @ [93])"
| "dumps_at level (VDict kvs) =
     (if kvs = [] then asc ''{}''
      else [123] @ newline_indent (Suc level) @ dumps_members (Suc level) kvs
           @ newline_indent level @ [125])"
| "dumps_items level [] = []"
| "dumps_items level (x # xs) =
     dumps_at level x
     @ (if xs = [] then [] else [44] @ newline_indent level @ dumps_items level xs)"
| "dumps_members level [] = []"
| "dumps_members level (kv # kvs) =
     json_string (fst kv) @ [58, 32] @ dumps_at level (snd kv)
     @ (if kvs = [] then [] else [44] @ newline_indent level @ dumps_members level kvs)"

definition json_dumps :: "val \<Rightarrow> ustr" where
  "json_dumps v = dumps_at 0 v"

text \<open>What follows a value in this text: nothing, a comma or a line feed.\<close>

definition value_end :: "ustr \<Rightarrow> bool" where
  "value_end r = (r = [] \<or> hd r = 44 \<or> hd r = 10)"

text \<open>
  \<open>json.loads\<close>, and with it \<open>json.load\<close> on the text of a file: white space is blank,
  tab, line feed and carriage return; a string ends at the first quote that is not
  escaped, may not hold a raw control character, and its escapes are the two-character
  ones and \<open>\uXXXX\<close>, two of which form one code point when they are a surrogate pair.
\<close>

definition is_json_ws :: "nat \<Rightarrow> bool" where
  "is_json_ws c = (c = 32 \<or> c = 9 \<or> c = 10 \<or> c = 13)"

definition skip_ws :: "ustr \<Rightarrow> ustr" where
  "skip_ws s = dropWhile is_json_ws s"

definition hex_value :: "nat \<Rightarrow> nat option" where
  "hex_value c =
     (if 48 \<le> c \<and> c \<le> 57 then Some (c - 48)
      else if 97 \<le> c \<and> c \<le> 102 then Some (c - 87)
      else if 65 \<le> c \<and> c \<le> 70 then Some (c - 55)
      else None)"

fun hex4 :: "ustr \<Rightarrow> nat option" where
  "hex4 (a # b # c # d # r) =
     (case hex_value a of None \<Rightarrow> None | Some x \<Rightarrow>
      case hex_value b of None \<Rightarrow> None | Some y \<Rightarrow>
      case hex_value c of None \<Rightarrow> None | Some z \<Rightarrow>
      case hex_value d of None \<Rightarrow> None | Some u \<Rightarrow>
        Some (((x * 16 + y) * 16 + z) * 16 + u))"
| "hex4 _ = None"

declare hex4.simps [simp del]

definition unescape :: "nat \<Rightarrow> nat option" where
  "unescape x =
     (if x = 34 then Some 34
      else if x = 92 then Some 92
      else if x = 47 then Some 47
      else if x = 98 then Some 8
      else if x = 102 then Some 12
      else if x = 110 then Some 10
      else if x = 114 then Some 13
      else if x = 116 then Some 9
      else None)"

text \<open>The characters of a string, from behind its opening quote.\<close>

function parse_chars :: "ustr \<Rightarrow> ustr \<Rightarrow> (ustr \<times> ustr) option" where
  "parse_chars acc s =
     (case s of
        [] \<Rightarrow> None
      | c # cs \<Rightarrow>
          if c = 34 then Some (acc, cs)
          else if c = 92 then
            (case cs of
               [] \<Rightarrow> None
             | x # xs \<Rightarrow>
                 if x = 117 then
                   (case hex4 xs of
                      None \<Rightarrow> None
                    | Some uni \<Rightarrow>
                        if 55296 \<le> uni \<and> uni \<le> 56319 \<and> take 2 (drop 4 xs) = [92, 117] then
                          (case hex4 (drop 6 xs) of
                             None \<Rightarrow> None
                           | Some uni2 \<Rightarrow>
                               if 56320 \<le> uni2 \<and> uni2 \<le> 57343
                               then parse_chars
                                      (acc @ [65536 + (uni - 55296) * 1024 + (uni2 - 56320)])
                                      (drop 10 xs)
                               else parse_chars (acc @ [uni]) (drop 4 xs))
                        else parse_chars (acc @ [uni]) (drop 4 xs))
                 else
                   (case unescape x of
                      None \<Rightarrow> None
                    | Some y \<Rightarrow> parse_chars (acc @ [y]) xs))
          else if c < 32 then None
          else parse_chars (acc @ [c]) cs)"
  by pat_completeness auto
termination
  by (relation "measure (\<lambda>(acc, s). length s)") auto

declare parse_chars.simps [simp del]

text \<open>
  A number: an optional minus sign, then a single zero or digits that start with none.
  A fraction or an exponent makes a float, which is outside this model: the result is
  \<open>None\<close>, as it is for text that is no number.
\<close>

definition is_digit :: "nat \<Rightarrow> bool" where
  "is_digit c = (48 \<le> c \<and> c \<le> 57)"

definition digits_value :: "ustr \<Rightarrow> nat" where
  "digits_value ds = foldl (\<lambda>n c. 10 * n + (c - 48)) 0 ds"

definition parse_number :: "ustr \<Rightarrow> (val \<times> ustr) option" where
  "parse_number s =
     (let negative = (s \<noteq> [] \<and> hd s = 45);
          t = (if negative then tl s else s);
          ds = (if t \<noteq> [] \<and> hd t = 48 then [48] else takeWhile is_digit t);
          r = drop (length ds) t
      in if ds = [] then None
         else if r \<noteq> [] \<and> (hd r = 46 \<or> hd r = 101 \<or> hd r = 69) then None
         else Some (VInt (if negative then - int (digits_value ds) else int (digits_value ds)), r))"

text \<open>\<open>dict(pairs)\<close>: a key that comes again keeps its place and takes the later value.\<close>

definition dict_set :: "(ustr \<times> val) list \<Rightarrow> ustr \<Rightarrow> val \<Rightarrow> (ustr \<times> val) list" where
  "dict_set kvs k v =
     (if k \<in> set (map fst kvs)
      then map (\<lambda>kv. if fst kv = k then (k, v) else kv) kvs
      else kvs @ [(k, v)])"

text \<open>
  The recursive descent over values, the items of a list (from the first character of
  an item) and the members of a dict (from the quote of a key).  The first argument bounds
  the number of nested calls; \<open>json_loads\<close> gives it more than any text can use.
\<close>

fun parse_value :: "nat \<Rightarrow> ustr \<Rightarrow> (val \<times> ustr) option"
  and parse_items :: "nat \<Rightarrow> val list \<Rightarrow> ustr \<Rightarrow> (val \<times> ustr) option"
  and parse_members :: "nat \<Rightarrow> (ustr \<times> val) list \<Rightarrow> ustr \<Rightarrow> (val \<times> ustr) option" where
  "parse_value 0 s = None"
| "parse_value (Suc n) s =
     (case s of
        [] \<Rightarrow> None
      | c # cs \<Rightarrow>
          if c = 34 then
            (case parse_chars [] cs of None \<Rightarrow> None | Some (t, r) \<Rightarrow> Some (VStr t, r))
          else if c = 123 then
            (let r = skip_ws cs
             in if r \<noteq> [] \<and> hd r = 125 then Some (VDict [], tl r) else parse_members n [] r)
          else if c = 91 then
            (let r = skip_ws cs
             in if r \<noteq> [] \<and> hd r = 93 then Some (VList [], tl r) else parse_items n [] r)
          else if startswith s (asc ''null'') then Some (VNone, drop 4 s)
          else if startswith s (asc ''true'') then Some (VBool True, drop 4 s)
          else if startswith s (asc ''false'') then Some (VBool False, drop 5 s)
          else parse_number s)"
| "parse_items 0 acc s = None"
| "parse_items (Suc n) acc s =
     (case parse_value n s of
        None \<Rightarrow> None
      | Some (v, r) \<Rightarrow>
          (let r1 = skip_ws r
           in if r1 \<noteq> [] \<and> hd r1 = 44 then parse_items n (acc @ [v]) (skip_ws (tl r1))
              else if r1 \<noteq> [] \<and> hd r1 = 93 then Some (VList (acc @ [v]), tl r1)
              else None))"
| "parse_members 0 acc s = None"
| "parse_members (Suc n) acc s =
     (if s \<noteq> [] \<and> hd s = 34 then
        (case parse_chars [] (tl s) of
           None \<Rightarrow> None
         | Some (k, r) \<Rightarrow>
             (let r1 = skip_ws r
              in if r1 \<noteq> [] \<and> hd r1 = 58 then
                   (case parse_value n (skip_ws (tl r1)) of
                      None \<Rightarrow> None
                    | Some (v, r2) \<Rightarrow>
                        (let r3 = skip_ws r2
                         in if r3 \<noteq> [] \<and> hd r3 = 44
                            then parse_members n (dict_set acc k v) (skip_ws (tl r3))
                            else if r3 \<noteq> [] \<and> hd r3 = 125
                            then Some (VDict (dict_set acc k v), tl r3)
                            else None))
                 else None))
      else None)"

definition json_loads :: "ustr \<Rightarrow> val option" where
  "json_loads s =
     (case parse_value (2 * length s + 2) (skip_ws s) of
        None \<Rightarrow> None
      | Some (v, r) \<Rightarrow> if skip_ws r = [] then Some v else None)"

text \<open>
  A value as \<open>json.loads\<close> and \<open>res.json()\<close> build it: the keys of every dict are
  distinct.
\<close>

fun distinct_keys :: "val \<Rightarrow> bool" where
  "distinct_keys (VList xs) = list_all distinct_keys xs"
| "distinct_keys (VDict kvs) =
     (distinct (map fst kvs) \<and> list_all (\<lambda>kv. distinct_keys (snd kv)) kvs)"
| "distinct_keys v = True"

section \<open>The outside world\<close>

text \<open>
  What the program cannot decide is a parameter: the answers of the HTTP servers (by
  request number and URL), the random generator, the file system's refusals, the image
  decoder, \<open>str.isalnum\<close>, \<open>str.lower\<close> outside the two alphabets, the text of
  containers, and how much of a text reaches a file before a write fails.
\<close>

record response =
  status_code :: int
  http_error :: ustr
  content :: "nat list"
  json :: "ustr + val"

datatype http_result = Failed ustr | Answered response

record env =
  http :: "nat \<Rightarrow> ustr \<Rightarrow> http_result"
  rng :: "nat \<Rightarrow> nat"
  makedirs_fails :: "ustr \<Rightarrow> bool"
  open_fails :: "ustr \<Rightarrow> bool"
  image_size :: "nat list \<Rightarrow> (nat \<times> nat) option"
  isalnum :: "nat \<Rightarrow> bool"
  unicode_lower :: "ustr \<Rightarrow> ustr"
  repr :: "val \<Rightarrow> ustr"
  flushed :: "ustr \<Rightarrow> nat"

text \<open>
  What the program changes: the files it writes, the speech and side effects it
  produces (in order), the URLs it has requested (in order) and how many random numbers
  it has drawn.  Console
  output (\<open>print\<close>) is not recorded.
\<close>

datatype fdata = Text ustr | Binary "nat list"

datatype event =
    Speak val
  | OpenLink ustr
  | ShowImage "nat list"
  | WriteFile ustr

record world =
  files :: "ustr \<Rightarrow> fdata option"
  log :: "event list"
  requests :: "ustr list"
  draws :: nat

text \<open>
  A statement sequence that may raise and may change the world: the outcome is
  \<open>Inl\<close> the exception or \<open>Inr\<close> the value, beside the world as it is then.
\<close>

type_synonym ('a, 'w) prog = "'w \<Rightarrow> (exn + 'a) \<times> 'w"

definition ret :: "'a \<Rightarrow> ('a, 'w) prog" where
  "ret x = (\<lambda>w. (Inr x, w))"

definition lift :: "exn + 'a \<Rightarrow> ('a, 'w) prog" where
  "lift r = (\<lambda>w. (r, w))"

definition bind :: "('a, 'w) prog \<Rightarrow> ('a \<Rightarrow> ('b, 'w) prog) \<Rightarrow> ('b, 'w) prog" where
  "bind m f = (\<lambda>w. case m w of (Inl e, w') \<Rightarrow> (Inl e, w') | (Inr x, w') \<Rightarrow> f x w')"

text \<open>\<open>speech.speak(text)\<close>.\<close>

definition speak :: "val \<Rightarrow> (unit, 'a world_scheme) prog" where
  "speak v = (\<lambda>w. (Inr (), w\<lparr>log := log w @ [Speak v]\<rparr>))"

text \<open>
  \<open>requests.get(url)\<close>: a URL that is not a string is turned into one, as
  \<open>requests\<close> does; a failure raises.
\<close>

definition requests_get :: "env \<Rightarrow> val \<Rightarrow> (response, 'a world_scheme) prog" where
  "requests_get e url = (\<lambda>w.
     (case http e (length (requests w)) (py_str (repr e) url) of
        Failed m \<Rightarrow> Inl (RequestException m)
      | Answered r \<Rightarrow> Inr r,
      w\<lparr>requests := requests w @ [py_str (repr e) url]\<rparr>))"

text \<open>\<open>res.raise_for_status()\<close>: status codes 400 to 599 raise \<open>HTTPError\<close>.\<close>

definition raise_for_status :: "response \<Rightarrow> exn + unit" where
  "raise_for_status r =
     (if 400 \<le> status_code r \<and> status_code r < 600
      then Inl (RequestException (http_error r)) else Inr ())"

text \<open>\<open>res.json()\<close>.\<close>

definition res_json :: "response \<Rightarrow> exn + val" where
  "res_json r = (case json r of Inl m \<Rightarrow> Inl (RequestException m) | Inr v \<Rightarrow> Inr v)"

text \<open>
  The three lines that \<open>_fetch\<close>, \<open>_fetch_from_url\<close> and \<open>find_word\<close> share:
  \<open>res = requests.get(url); res.raise_for_status(); res.json()\<close>.
\<close>

definition get_json :: "env \<Rightarrow> val \<Rightarrow> (val, 'a world_scheme) prog" where
  "get_json e url =
     bind (requests_get e url) (\<lambda>res.
     bind (lift (raise_for_status res)) (\<lambda>_.
     lift (res_json res)))"

text \<open>\<open>os.makedirs(folder, exist_ok=True)\<close>.\<close>

definition makedirs :: "env \<Rightarrow> ustr \<Rightarrow> (unit, 'a world_scheme) prog" where
  "makedirs e folder = (\<lambda>w. (if makedirs_fails e folder then Inl OSError else Inr (), w))"

text \<open>
  \<open>open(path, mode)\<close> for writing, before any byte is written: a surrogate code
  point that the file system encoding (UTF-8 with \<open>surrogateescape\<close>) cannot encode
  raises \<open>UnicodeEncodeError\<close>; a NUL in the path raises \<open>ValueError\<close>; the file system
  may refuse with an \<open>OSError\<close>.  In each case no file is created or changed.
\<close>

definition is_surrogate :: "nat \<Rightarrow> bool" where
  "is_surrogate c = (55296 \<le> c \<and> c \<le> 57343)"

definition unencodable_in_path :: "nat \<Rightarrow> bool" where
  "unencodable_in_path c = (is_surrogate c \<and> \<not> (56448 \<le> c \<and> c \<le> 56575))"

definition open_for_writing :: "env \<Rightarrow> ustr \<Rightarrow> exn + unit" where
  "open_for_writing e path =
     (if list_ex unencodable_in_path path then Inl UnicodeEncodeError
      else if 0 \<in> set path then Inl ValueError
      else if open_fails e path then Inl OSError
      else Inr ())"

text \<open>\<open>with open(path, 'wb') as f: f.write(data)\<close>.\<close>

definition write_binary :: "env \<Rightarrow> ustr \<Rightarrow> nat list \<Rightarrow> (unit, 'a world_scheme) prog" where
  "write_binary e path data = (\<lambda>w.
     case open_for_writing e path of
       Inl x \<Rightarrow> (Inl x, w)
     | Inr u \<Rightarrow> (Inr (), w\<lparr>files := (files w)(path \<mapsto> Binary data),
                           log := log w @ [WriteFile path]\<rparr>))"

text \<open>
  \<open>with open(path, 'w', encoding='utf-8') as f\<close> and the text written into it.  Once
  the file is open, a surrogate code point in the text cannot be encoded: the write
  raises and the file keeps the part of the text that was flushed before.
\<close>

definition write_text :: "env \<Rightarrow> ustr \<Rightarrow> ustr \<Rightarrow> (unit, 'a world_scheme) prog" where
  "write_text e path txt = (\<lambda>w.
     case open_for_writing e path of
       Inl x \<Rightarrow> (Inl x, w)
     | Inr u \<Rightarrow>
         if list_ex is_surrogate txt
         then (Inl UnicodeEncodeError,
               w\<lparr>files := (files w)(path \<mapsto> Text (take (flushed e txt) txt))\<rparr>)
         else (Inr (), w\<lparr>files := (files w)(path \<mapsto> Text txt),
                          log := log w @ [WriteFile path]\<rparr>))"

text \<open>
  \<open>random.randint(a, b)\<close>: an empty range raises \<open>ValueError\<close>, a bound that is no
  integer raises \<open>TypeError\<close> (\<open>True\<close> and \<open>False\<close> count as 1 and 0).  The generator's
  next output is \<open>rng e (draws w)\<close>; it is reduced into the range.
\<close>

fun int_of_val :: "val \<Rightarrow> exn + int" where
  "int_of_val (VInt i) = Inr i"
| "int_of_val (VBool b) = Inr (if b then 1 else 0)"
| "int_of_val _ = Inl TypeError"

definition randint :: "env \<Rightarrow> int \<Rightarrow> val \<Rightarrow> (int, 'a world_scheme) prog" where
  "randint e a bv = (\<lambda>w.
     case int_of_val bv of
       Inl x \<Rightarrow> (Inl x, w)
     | Inr b \<Rightarrow>
         if b < a then (Inl ValueError, w)
         else (Inr (a + int (rng e (draws w) mod nat (b - a + 1))),
               w\<lparr>draws := draws w + 1\<rparr>))"

section \<open>Generators and loops\<close>

text \<open>Sequencing of computations that may raise but do not touch the world.\<close>

definition sbind :: "exn + 'a \<Rightarrow> ('a \<Rightarrow> exn + 'b) \<Rightarrow> exn + 'b" where
  "sbind r f = (case r of Inl x \<Rightarrow> Inl x | Inr v \<Rightarrow> f v)"

text \<open>
  The speech decoder is a parameter: \<open>AcceptWaveform\<close> tells whether the frame
  completed an utterance, \<open>Result\<close> gives the parsed JSON result; both advance the
  decoder's state.
\<close>

record 'd decoder =
  AcceptWaveform :: "'d \<Rightarrow> nat list \<Rightarrow> bool \<times> 'd"
  Result :: "'d \<Rightarrow> val \<times> 'd"

text \<open>
  A \<open>listen\<close> generator runs the body of its \<open>while True\<close> loop once per audio frame
  read; a pass yields a value or nothing, or raises.  Over the frames that arrive until
  the interrupt, the generator gives the values yielded in order and the exception that
  ended it, if any.
\<close>

fun generate :: "(nat list \<Rightarrow> 'd \<Rightarrow> (exn + 'y option) \<times> 'd) \<Rightarrow> nat list list \<Rightarrow> 'd
    \<Rightarrow> 'y list \<times> exn option" where
  "generate body [] d = ([], None)"
| "generate body (frame # frames) d =
     (case body frame d of
        (Inl x, d') \<Rightarrow> ([], Some x)
      | (Inr None, d') \<Rightarrow> generate body frames d'
      | (Inr (Some y), d') \<Rightarrow>
          (case generate body frames d' of (ys, x) \<Rightarrow> (y # ys, x)))"

text \<open>
  In the words of the specification: the results that the decoder finalises over the
  frames, in order (the decoder gives a result at each frame that completes an
  utterance), and the text of a result.
\<close>

fun finalisations :: "'d decoder \<Rightarrow> nat list list \<Rightarrow> 'd \<Rightarrow> val list" where
  "finalisations k [] d = []"
| "finalisations k (frame # frames) d =
     (case AcceptWaveform k d frame of
        (False, d1) \<Rightarrow> finalisations k frames d1
      | (True, d1) \<Rightarrow>
          (case Result k d1 of (result, d2) \<Rightarrow> result # finalisations k frames d2))"

definition text_of :: "val \<Rightarrow> ustr" where
  "text_of result =
     (case py_get result (asc ''text'') (VStr []) of Inr (VStr s) \<Rightarrow> s | _ \<Rightarrow> [])"

definition text_item :: "val \<Rightarrow> val" where
  "text_item answer =
     (case subscript_str answer (asc ''text'') of Inr t \<Rightarrow> t | Inl x \<Rightarrow> VNone)"

text \<open>How one pass through the body of a \<open>for\<close> loop ends.\<close>

datatype flow = Continue | Break

text \<open>
  The \<open>for\<close> loop over the recognised texts.  It stops at \<open>break\<close> (or \<open>quit()\<close>),
  ends when the generator ends, and an exception that leaves the body ends the
  program.  The texts not drawn from the generator are returned.
\<close>

datatype status = Stopped | Crashed exn | Ended

fun for_loop :: "('t \<Rightarrow> (flow, 'w) prog) \<Rightarrow> 't list \<Rightarrow> 'w \<Rightarrow> status \<times> 't list \<times> 'w" where
  "for_loop body [] w = (Ended, [], w)"
| "for_loop body (t # ts) w =
     (case body t w of
        (Inl x, w') \<Rightarrow> (Crashed x, ts, w')
      | (Inr Break, w') \<Rightarrow> (Stopped, ts, w')
      | (Inr Continue, w') \<Rightarrow> for_loop body ts w')"

section \<open>Lab\_10.py: the Rick and Morty assistant\<close>

subsection \<open>Literals\<close>

definition BASE_URL_rm :: ustr where
  "BASE_URL_rm = asc ''https://rickandmortyapi.com/api''"

definition not_selected_rm :: ustr where
  "not_selected_rm = asc ''Character not selected.''"

text \<open>The Cyrillic literals: sluchainyi, sokhranit, epizod, pokazat, razreshenie,
  proiskhozhdenie, lokatsiya, spisok epizodov, vykhod, proshchayus.\<close>

definition ru_random :: ustr where
  "ru_random = [1089, 1083, 1091, 1095, 1072, 1081, 1085, 1099, 1081]"

definition ru_save :: ustr where
  "ru_save = [1089, 1086, 1093, 1088, 1072, 1085, 1080, 1090, 1100]"

definition ru_episode :: ustr where
  "ru_episode = [1101, 1087, 1080, 1079, 1086, 1076]"

definition ru_show :: ustr where
  "ru_show = [1087, 1086, 1082, 1072, 1079, 1072, 1090, 1100]"

definition ru_resolution :: ustr where
  "ru_resolution = [1088, 1072, 1079, 1088, 1077, 1096, 1077, 1085, 1080, 1077]"

definition ru_origin :: ustr where
  "ru_origin = [1087, 1088, 1086, 1080, 1089, 1093, 1086, 1078, 1076, 1077, 1085, 1080, 1077]"

definition ru_location :: ustr where
  "ru_location = [1083, 1086, 1082, 1072, 1094, 1080, 1103]"

definition ru_episode_list :: ustr where
  "ru_episode_list = [1089, 1087, 1080, 1089, 1086, 1082, 32, 1101, 1087, 1080, 1079, 1086, 1076, 1086, 1074]"

definition ru_exit :: ustr where
  "ru_exit = [1074, 1099, 1093, 1086, 1076]"

definition ru_farewell :: ustr where
  "ru_farewell = [1087, 1088, 1086, 1097, 1072, 1102, 1089, 1100]"

text \<open>The spoken texts: "Do skorykh vstrech!", "Komanda ne raspoznana. Poprobuite
  snova.", "Sokhraneno: " and "Razreshenie: ".\<close>

definition ru_goodbye :: ustr where
  "ru_goodbye = [1044, 1086, 32, 1089, 1082, 1086, 1088, 1099, 1093, 32, 1074, 1089, 1090, 1088, 1077, 1095, 33]"

definition ru_unknown :: ustr where
  "ru_unknown = [1050, 1086, 1084, 1072, 1085, 1076, 1072, 32, 1085, 1077, 32, 1088, 1072, 1089, 1087,
     1086, 1079, 1085, 1072, 1085, 1072, 46, 32, 1055, 1086, 1087, 1088, 1086, 1073, 1091, 1081, 1090,
     1077, 32, 1089, 1085, 1086, 1074, 1072, 46]"

definition ru_saved :: ustr where
  "ru_saved = [1057, 1086, 1093, 1088, 1072, 1085, 1077, 1085, 1086, 58, 32]"

definition ru_resolution_msg :: ustr where
  "ru_resolution_msg = [1056, 1072, 1079, 1088, 1077, 1096, 1077, 1085, 1080, 1077, 58, 32]"

text \<open>The table \<open>COMMANDS\<close>, in the order of the source.\<close>

definition COMMANDS_rm :: "(ustr \<times> ustr) list" where
  "COMMANDS_rm =
     [(ru_random, asc ''random''),
      (ru_save, asc ''save''),
      (ru_episode, asc ''first_ep''),
      (ru_show, asc ''show_img''),
      (ru_resolution, asc ''resolution''),
      (ru_origin, asc ''origin''),
      (ru_location, asc ''location''),
      (ru_episode_list, asc ''list_eps''),
      (ru_exit, asc ''exit'')]"

subsection \<open>class RickAndMortyAPI\<close>

text \<open>The object's one attribute, \<open>self.character\<close>, beside the world.\<close>

record rm_world = world +
  character :: val

definition fetch :: "env \<Rightarrow> ustr \<Rightarrow> (val, rm_world) prog" where
  "fetch e endpoint = (\<lambda>w.
     case get_json e (VStr (BASE_URL_rm @ asc ''/'' @ endpoint)) w of
       (Inl (RequestException m), w') \<Rightarrow> (Inr (VDict [(asc ''error'', VStr m)]), w')
     | r \<Rightarrow> r)"

definition fetch_from_url :: "env \<Rightarrow> val \<Rightarrow> (val, rm_world) prog" where
  "fetch_from_url e url = (\<lambda>w.
     case get_json e url w of
       (Inl (RequestException m), w') \<Rightarrow> (Inr (VDict []), w')
     | r \<Rightarrow> r)"

text \<open>
  The first two statements of \<open>random_character\<close>:
  \<open>info = self._fetch('character'); total = info.get('info', {}).get('count', 826)\<close>.
\<close>

definition count_total :: "env \<Rightarrow> (val, rm_world) prog" where
  "count_total e =
     bind (fetch e (asc ''character'')) (\<lambda>info.
     bind (lift (py_get info (asc ''info'') (VDict []))) (\<lambda>inner.
     lift (py_get inner (asc ''count'') (VInt 826))))"

definition random_character :: "env \<Rightarrow> (val \<times> val, rm_world) prog" where
  "random_character e =
     bind (count_total e) (\<lambda>total.
     bind (randint e 1 total) (\<lambda>char_id.
     bind (fetch e (asc ''character/'' @ dec_int char_id)) (\<lambda>data.
     bind (lift (py_in (asc ''error'') data)) (\<lambda>failed.
       if failed then
         bind (lift (subscript_str data (asc ''error''))) (\<lambda>err. ret (VNone, err))
       else
         bind (\<lambda>w. (Inr (), w\<lparr>character := data\<rparr>)) (\<lambda>_.
         bind (lift (subscript_str data (asc ''name''))) (\<lambda>name. ret (name, VNone)))))))"

text \<open>
  The generator expression of \<open>save_image\<close>: an item is kept when \<open>c.isalnum()\<close> holds
  or it is a blank or an underscore; an item that is no string has no \<open>isalnum\<close>.
\<close>

fun safe_items :: "(nat \<Rightarrow> bool) \<Rightarrow> val list \<Rightarrow> exn + ustr list" where
  "safe_items alnum [] = Inr []"
| "safe_items alnum (VStr c # vs) =
     (case safe_items alnum vs of
        Inl x \<Rightarrow> Inl x
      | Inr cs \<Rightarrow>
          Inr (if (c \<noteq> [] \<and> list_all alnum c) \<or> c = asc '' '' \<or> c = asc ''_''
               then c # cs else cs))"
| "safe_items alnum (_ # vs) = Inl AttributeError"

definition save_image :: "env \<Rightarrow> ustr \<Rightarrow> (val \<times> val, rm_world) prog" where
  "save_image e folder = (\<lambda>w0.
     if \<not> truthy (character w0) then (Inr (VNone, VStr not_selected_rm), w0)
     else
      (bind (makedirs e folder) (\<lambda>_.
       bind (lift (subscript_str (character w0) (asc ''image''))) (\<lambda>url.
       bind (requests_get e url) (\<lambda>res.
       bind (lift (subscript_str (character w0) (asc ''name''))) (\<lambda>name.
       bind (lift (py_iter name)) (\<lambda>items.
       bind (lift (safe_items (isalnum e) items)) (\<lambda>kept.
       let safe_name = strip (concat kept);
           path = path_join folder (safe_name @ asc ''.jpg'')
       in bind (write_binary e path (content res)) (\<lambda>_.
          ret (VStr path, VNone))))))))) w0)"

definition first_episode :: "env \<Rightarrow> (val \<times> val, rm_world) prog" where
  "first_episode e = (\<lambda>w0.
     if \<not> truthy (character w0) then (Inr (VNone, VStr not_selected_rm), w0)
     else
      (bind (lift (subscript_str (character w0) (asc ''episode''))) (\<lambda>eps.
       bind (lift (subscript_idx eps 0)) (\<lambda>url.
       bind (fetch_from_url e url) (\<lambda>ep.
       bind (lift (py_get ep (asc ''name'') VNone)) (\<lambda>name.
       ret (name, VNone)))))) w0)"

text \<open>\<open>Image.open(BytesIO(data))\<close>: data that is no image raises
  \<open>UnidentifiedImageError\<close>, an \<open>OSError\<close>.\<close>

definition image_open :: "env \<Rightarrow> nat list \<Rightarrow> exn + (nat \<times> nat)" where
  "image_open e data = (case image_size e data of None \<Rightarrow> Inl OSError | Some wh \<Rightarrow> Inr wh)"

definition show_image :: "env \<Rightarrow> (val \<times> val, rm_world) prog" where
  "show_image e = (\<lambda>w0.
     if \<not> truthy (character w0) then (Inr (VNone, VStr not_selected_rm), w0)
     else
      (bind (lift (subscript_str (character w0) (asc ''image''))) (\<lambda>url.
       bind (requests_get e url) (\<lambda>res.
       bind (lift (image_open e (content res))) (\<lambda>img.
       bind (\<lambda>w. (Inr (), w\<lparr>log := log w @ [ShowImage (content res)]\<rparr>)) (\<lambda>_.
       ret (VStr (asc ''Image displayed.''), VNone)))))) w0)"

definition image_resolution :: "env \<Rightarrow> (val \<times> val, rm_world) prog" where
  "image_resolution e = (\<lambda>w0.
     if \<not> truthy (character w0) then (Inr (VNone, VStr not_selected_rm), w0)
     else
      (bind (lift (subscript_str (character w0) (asc ''image''))) (\<lambda>url.
       bind (requests_get e url) (\<lambda>res.
       bind (lift (image_open e (content res))) (\<lambda>(wd, ht).
       ret (VStr (dec_nat wd @ asc ''x'' @ dec_nat ht), VNone))))) w0)"

definition origin :: "(val \<times> val, rm_world) prog" where
  "origin = (\<lambda>w0.
     if \<not> truthy (character w0) then (Inr (VNone, VStr not_selected_rm), w0)
     else
      (bind (lift (subscript_str (character w0) (asc ''origin''))) (\<lambda>org.
       bind (lift (subscript_str org (asc ''name''))) (\<lambda>name.
       ret (name, VNone)))) w0)"

definition location :: "(val \<times> val, rm_world) prog" where
  "location = (\<lambda>w0.
     if \<not> truthy (character w0) then (Inr (VNone, VStr not_selected_rm), w0)
     else
      (bind (lift (subscript_str (character w0) (asc ''location''))) (\<lambda>loc.
       bind (lift (subscript_str loc (asc ''name''))) (\<lambda>name.
       ret (name, VNone)))) w0)"

text \<open>The loop of \<open>episodes_list\<close> over the episode URLs.\<close>

fun episode_names :: "env \<Rightarrow> val list \<Rightarrow> (val list, rm_world) prog" where
  "episode_names e [] = ret []"
| "episode_names e (url # urls) =
     bind (fetch_from_url e url) (\<lambda>data.
     bind (lift (py_get data (asc ''name'') VNone)) (\<lambda>name.
     bind (episode_names e urls) (\<lambda>names.
     ret (name # names))))"

definition episodes_list :: "env \<Rightarrow> (val \<times> val, rm_world) prog" where
  "episodes_list e = (\<lambda>w0.
     if \<not> truthy (character w0) then (Inr (VNone, VStr not_selected_rm), w0)
     else
      (bind (lift (subscript_str (character w0) (asc ''episode''))) (\<lambda>eps.
       bind (lift (py_iter eps)) (\<lambda>urls.
       bind (episode_names e urls) (\<lambda>names.
       ret (VList names, VNone))))) w0)"

subsection \<open>The session loop\<close>

text \<open>\<open>speech.speak(value if not err else err)\<close>.\<close>

definition speak_result :: "val \<Rightarrow> val \<Rightarrow> (flow, 'a world_scheme) prog" where
  "speak_result v err = bind (speak (if \<not> truthy err then v else err)) (\<lambda>_. ret Continue)"

text \<open>\<open>', '.join(eps)\<close>, evaluated only when there is no error.\<close>

definition join_names :: "val \<Rightarrow> exn + val" where
  "join_names eps =
     (case py_iter eps of
        Inl x \<Rightarrow> Inl x
      | Inr items \<Rightarrow>
          (case strings_of items of
             Inl x \<Rightarrow> Inl x
           | Inr ss \<Rightarrow> Inr (VStr (join (asc '', '') ss))))"

text \<open>The body of the loop for one recognised text.\<close>

definition step_rm :: "env \<Rightarrow> ustr \<Rightarrow> (flow, rm_world) prog" where
  "step_rm e text =
     (let cmd = lower (unicode_lower e) text in
      if contains cmd ru_exit \<or> contains cmd ru_farewell then
        bind (speak (VStr ru_goodbye)) (\<lambda>_. ret Break)
      else if contains cmd ru_random then
        bind (random_character e) (\<lambda>(name, err). speak_result name err)
      else if contains cmd ru_save then
        bind (save_image e (asc ''images'')) (\<lambda>(path, err).
          speak_result (VStr (ru_saved @ py_str (repr e) path)) err)
      else if contains cmd ru_episode then
        bind (first_episode e) (\<lambda>(ep, err). speak_result ep err)
      else if contains cmd ru_episode_list then
        bind (episodes_list e) (\<lambda>(eps, err).
          if \<not> truthy err
          then bind (lift (join_names eps)) (\<lambda>s. speak_result s err)
          else speak_result VNone err)
      else if contains cmd ru_show then
        bind (show_image e) (\<lambda>(msg, err). speak_result msg err)
      else if contains cmd ru_resolution then
        bind (image_resolution e) (\<lambda>(res, err).
          speak_result (VStr (ru_resolution_msg @ py_str (repr e) res)) err)
      else if contains cmd ru_origin then
        bind origin (\<lambda>(org, err). speak_result org err)
      else if contains cmd ru_location then
        bind location (\<lambda>(loc, err). speak_result loc err)
      else
        bind (speak (VStr ru_unknown)) (\<lambda>_. ret Continue))"

text \<open>\<open>Recognizer.listen\<close>: one pass of its loop, and the generator.\<close>

definition listen_body_rm :: "'d decoder \<Rightarrow> nat list \<Rightarrow> 'd \<Rightarrow> (exn + ustr option) \<times> 'd" where
  "listen_body_rm k data d =
     (case AcceptWaveform k d data of
        (False, d1) \<Rightarrow> (Inr None, d1)
      | (True, d1) \<Rightarrow>
          (case Result k d1 of
             (result, d2) \<Rightarrow>
               (sbind (py_get result (asc ''text'') (VStr [])) (\<lambda>t.
                  case t of
                    VStr s \<Rightarrow> (let text = strip s in Inr (if text \<noteq> [] then Some text else None))
                  | _ \<Rightarrow> Inl AttributeError),
                d2)))"

definition listen_rm :: "'d decoder \<Rightarrow> nat list list \<Rightarrow> 'd \<Rightarrow> ustr list \<times> exn option" where
  "listen_rm k = generate (listen_body_rm k)"

text \<open>The main program: the loop over the texts that \<open>listen\<close> yields.\<close>

definition main_rm :: "env \<Rightarrow> ustr list \<Rightarrow> rm_world \<Rightarrow> status \<times> ustr list \<times> rm_world" where
  "main_rm e = for_loop (step_rm e)"

section \<open>Extra\_.py: the dictionary assistant\<close>

subsection \<open>Literals\<close>

definition BASE_URL_dict :: ustr where
  "BASE_URL_dict = asc ''https://api.dictionaryapi.dev/api/v2/entries/en/''"

definition no_word :: ustr where
  "no_word = asc ''No word selected.''"

text \<open>The Cyrillic literals: "naiti " (with its blank), znachenie, primer, ssylka.\<close>

definition ru_find :: ustr where
  "ru_find = [1085, 1072, 1081, 1090, 1080, 32]"

definition ru_meaning :: ustr where
  "ru_meaning = [1079, 1085, 1072, 1095, 1077, 1085, 1080, 1077]"

definition ru_example :: ustr where
  "ru_example = [1087, 1088, 1080, 1084, 1077, 1088]"

definition ru_link :: ustr where
  "ru_link = [1089, 1089, 1099, 1083, 1082, 1072]"

definition unknown_dict :: ustr where
  "unknown_dict =
     asc ''Unknown command. Use save/'' @ ru_save @ asc '', meaning/'' @ ru_meaning
     @ asc '', example/'' @ ru_example @ asc '', link/'' @ ru_link
     @ asc '', or exit/'' @ ru_exit @ asc ''.''"

definition COMMANDS_dict :: "(ustr \<times> ustr) list" where
  "COMMANDS_dict =
     [(asc ''save'', asc ''save''), (ru_save, asc ''save''),
      (asc ''meaning'', asc ''meaning''), (ru_meaning, asc ''meaning''),
      (asc ''example'', asc ''example''), (ru_example, asc ''example''),
      (asc ''link'', asc ''link''), (ru_link, asc ''link''),
      (asc ''exit'', asc ''exit''), (ru_exit, asc ''exit''), (asc ''quit'', asc ''exit'')]"

subsection \<open>class DictionaryAPI\<close>

record dict_world = world +
  entry :: val

definition find_word :: "env \<Rightarrow> ustr \<Rightarrow> (val \<times> val, dict_world) prog" where
  "find_word e word = (\<lambda>w0.
     case (bind (get_json e (VStr (BASE_URL_dict @ word))) (\<lambda>data.
           bind (lift (subscript_idx data 0)) (\<lambda>first.
           bind (\<lambda>w. (Inr (), w\<lparr>entry := first\<rparr>)) (\<lambda>_.
           ret (VBool True, VNone))))) w0 of
       (Inl (RequestException m), w') \<Rightarrow> (Inr (VBool False, VStr m), w')
     | (Inl IndexError, w') \<Rightarrow> (Inr (VBool False, VStr (asc ''No entry found.'')), w')
     | (Inl ValueError, w') \<Rightarrow> (Inr (VBool False, VStr (asc ''No entry found.'')), w')
     | r \<Rightarrow> r)"

definition save :: "env \<Rightarrow> ustr \<Rightarrow> (val \<times> val, dict_world) prog" where
  "save e folder = (\<lambda>w0.
     if \<not> truthy (entry w0) then (Inr (VBool False, VStr no_word), w0)
     else
      (bind (makedirs e folder) (\<lambda>_.
       bind (lift (py_get (entry w0) (asc ''word'') (VStr (asc ''entry'')))) (\<lambda>word.
       let path = path_join folder (py_str (repr e) word @ asc ''.json'')
       in bind (write_text e path (json_dumps (entry w0))) (\<lambda>_.
          ret (VBool True, VStr path))))) w0)"

text \<open>The two nested loops of \<open>meaning\<close>.\<close>

fun definition_lines :: "(val \<Rightarrow> ustr) \<Rightarrow> val \<Rightarrow> val list \<Rightarrow> exn + val list" where
  "definition_lines r part [] = Inr []"
| "definition_lines r part (d # ds) =
     sbind (py_get d (asc ''definition'') VNone) (\<lambda>df.
     sbind (definition_lines r part ds) (\<lambda>ls.
     Inr (VStr (asc ''('' @ py_str r part @ asc '') '' @ py_str r df) # ls)))"

fun meaning_lines :: "(val \<Rightarrow> ustr) \<Rightarrow> val list \<Rightarrow> exn + val list" where
  "meaning_lines r [] = Inr []"
| "meaning_lines r (m # ms) =
     sbind (py_get m (asc ''partOfSpeech'') (VStr [])) (\<lambda>part.
     sbind (py_get m (asc ''definitions'') (VList [])) (\<lambda>dv.
     sbind (py_iter dv) (\<lambda>ds.
     sbind (definition_lines r part ds) (\<lambda>ls.
     sbind (meaning_lines r ms) (\<lambda>rest.
     Inr (ls @ rest))))))"

definition meaning :: "env \<Rightarrow> (val \<times> val, dict_world) prog" where
  "meaning e = (\<lambda>w0.
     if \<not> truthy (entry w0) then (Inr (VNone, VStr no_word), w0)
     else
      (sbind (py_get (entry w0) (asc ''meanings'') (VList [])) (\<lambda>mv.
       sbind (py_iter mv) (\<lambda>ms.
       sbind (meaning_lines (repr e) ms) (\<lambda>definitions.
       Inr (VList definitions, VNone)))), w0))"

text \<open>The two nested loops of \<open>example\<close>, which return at the first example found.\<close>

fun example_in_definitions :: "val list \<Rightarrow> exn + val option" where
  "example_in_definitions [] = Inr None"
| "example_in_definitions (d # ds) =
     sbind (py_get d (asc ''example'') VNone) (\<lambda>ex.
     if truthy ex then Inr (Some ex) else example_in_definitions ds)"

fun example_in_meanings :: "val list \<Rightarrow> exn + val option" where
  "example_in_meanings [] = Inr None"
| "example_in_meanings (m # ms) =
     sbind (py_get m (asc ''definitions'') (VList [])) (\<lambda>dv.
     sbind (py_iter dv) (\<lambda>ds.
     sbind (example_in_definitions ds) (\<lambda>found.
     case found of Some ex \<Rightarrow> Inr (Some ex) | None \<Rightarrow> example_in_meanings ms)))"

definition example :: "(val \<times> val, dict_world) prog" where
  "example = (\<lambda>w0.
     if \<not> truthy (entry w0) then (Inr (VNone, VStr no_word), w0)
     else
      (sbind (py_get (entry w0) (asc ''meanings'') (VList [])) (\<lambda>mv.
       sbind (py_iter mv) (\<lambda>ms.
       sbind (example_in_meanings ms) (\<lambda>found.
       case found of
         Some ex \<Rightarrow> Inr (ex, VNone)
       | None \<Rightarrow> Inr (VNone, VStr (asc ''No example found.''))))), w0))"

definition link :: "env \<Rightarrow> (val \<times> val, dict_world) prog" where
  "link e = (\<lambda>w0.
     if \<not> truthy (entry w0) then (Inr (VNone, VStr no_word), w0)
     else
      (sbind (py_get (entry w0) (asc ''word'') VNone) (\<lambda>word.
       Inr (VStr (BASE_URL_dict @ py_str (repr e) word), VNone)), w0))"

subsection \<open>The session loop\<close>

text \<open>The word to look up, \<open>None\<close> when the text starts with neither trigger.\<close>

definition find_param :: "ustr \<Rightarrow> ustr option" where
  "find_param text =
     (if startswith text (asc ''find '') then Some (strip (replace text (asc ''find '') []))
      else if startswith text ru_find then Some (strip (replace text ru_find []))
      else None)"

text \<open>\<open>for d in defs: speech.speak(d)\<close>.\<close>

fun speak_all :: "val list \<Rightarrow> (unit, 'a world_scheme) prog" where
  "speak_all [] = ret ()"
| "speak_all (d # ds) = bind (speak d) (\<lambda>_. speak_all ds)"

text \<open>\<open>webbrowser.open(url)\<close>.\<close>

definition webbrowser_open :: "ustr \<Rightarrow> (unit, 'a world_scheme) prog" where
  "webbrowser_open url = (\<lambda>w. (Inr (), w\<lparr>log := log w @ [OpenLink url]\<rparr>))"

text \<open>What the body does once \<open>action = COMMANDS.get(cmd)\<close> is known.\<close>

definition perform :: "env \<Rightarrow> ustr option \<Rightarrow> (flow, dict_world) prog" where
  "perform e action =
     (if action = Some (asc ''exit'') then
        bind (speak (VStr (asc ''Goodbye!''))) (\<lambda>_. ret Break)
      else if action = None \<or> action = Some [] then
        bind (speak (VStr unknown_dict)) (\<lambda>_. ret Continue)
      else if action = Some (asc ''save'') then
        bind (save e (asc ''dictionary_entries'')) (\<lambda>(ok, res).
        bind (speak (if truthy ok then VStr (asc ''Saved to '' @ py_str (repr e) res) else res)) (\<lambda>_.
        ret Continue))
      else if action = Some (asc ''meaning'') then
        bind (meaning e) (\<lambda>(defs, err).
        if truthy defs then
          bind (lift (py_iter defs)) (\<lambda>ds. bind (speak_all ds) (\<lambda>_. ret Continue))
        else
          bind (speak err) (\<lambda>_. ret Continue))
      else if action = Some (asc ''example'') then
        bind example (\<lambda>(ex, err).
        bind (speak (if truthy ex then ex else err)) (\<lambda>_. ret Continue))
      else if action = Some (asc ''link'') then
        bind (link e) (\<lambda>(url, err).
        if truthy url then
          bind (webbrowser_open (py_str (repr e) url)) (\<lambda>_.
          bind (speak (VStr (asc ''Opened link: '' @ py_str (repr e) url))) (\<lambda>_.
          ret Continue))
        else
          bind (speak err) (\<lambda>_. ret Continue))
      else ret Continue)"

text \<open>The body of the loop for one recognised text.\<close>

definition step_dict :: "env \<Rightarrow> ustr \<Rightarrow> (flow, dict_world) prog" where
  "step_dict e text =
     (case find_param text of
        Some word \<Rightarrow>
          if word \<noteq> [] then
            bind (find_word e word) (\<lambda>(ok, err).
            bind (speak (VStr (if truthy ok then asc ''Word '' @ [39] @ word @ [39] @ asc '' found.''
                               else asc ''Error: '' @ py_str (repr e) err))) (\<lambda>_.
            ret Continue))
          else perform e (map_of COMMANDS_dict (strip text))
      | None \<Rightarrow> perform e (map_of COMMANDS_dict (strip text)))"

definition listen_body_dict :: "env \<Rightarrow> 'd decoder \<Rightarrow> nat list \<Rightarrow> 'd
    \<Rightarrow> (exn + ustr option) \<times> 'd" where
  "listen_body_dict e k data d =
     (case AcceptWaveform k d data of
        (False, d1) \<Rightarrow> (Inr None, d1)
      | (True, d1) \<Rightarrow>
          (case Result k d1 of
             (result, d2) \<Rightarrow>
               (sbind (py_get result (asc ''text'') (VStr [])) (\<lambda>t.
                  case t of
                    VStr s \<Rightarrow>
                      (let text = strip s
                       in Inr (if text \<noteq> [] then Some (lower (unicode_lower e) text) else None))
                  | _ \<Rightarrow> Inl AttributeError),
                d2)))"

definition listen_dict :: "env \<Rightarrow> 'd decoder \<Rightarrow> nat list list \<Rightarrow> 'd
    \<Rightarrow> ustr list \<times> exn option" where
  "listen_dict e k = generate (listen_body_dict e k)"

definition main_dict :: "env \<Rightarrow> ustr list \<Rightarrow> dict_world \<Rightarrow> status \<times> ustr list \<times> dict_world" where
  "main_dict e = for_loop (step_dict e)"

section \<open>main1.py: the echo recogniser\<close>

text \<open>The Cyrillic literals: zakryt, and the farewell "Byvai, ikhtiandr".\<close>

definition ru_close :: ustr where
  "ru_close = [1079, 1072, 1082, 1088, 1099, 1090, 1100]"

definition ru_bye :: ustr where
  "ru_bye = [1041, 1099, 1074, 1072, 1081, 44, 32, 1080, 1093, 1090, 1080, 1072, 1085, 1076, 1088]"

text \<open>\<open>Recognize.listen\<close>: it yields \<open>answer['text']\<close> as it is when it is true.\<close>

definition listen_body_main1 :: "'d decoder \<Rightarrow> nat list \<Rightarrow> 'd \<Rightarrow> (exn + val option) \<times> 'd" where
  "listen_body_main1 k data d =
     (case AcceptWaveform k d data of
        (False, d1) \<Rightarrow> (Inr None, d1)
      | (True, d1) \<Rightarrow>
          if length data > 0 then
            (case Result k d1 of
               (answer, d2) \<Rightarrow>
                 (sbind (subscript_str answer (asc ''text'')) (\<lambda>t.
                    Inr (if truthy t then Some t else None)),
                  d2))
          else (Inr None, d1))"

definition listen_main1 :: "'d decoder \<Rightarrow> nat list list \<Rightarrow> 'd \<Rightarrow> val list \<times> exn option" where
  "listen_main1 k = generate (listen_body_main1 k)"

text \<open>The loop at the end of the file: \<open>zakryt\<close> says farewell and quits, any other text
  is printed.\<close>

definition step_main1 :: "val \<Rightarrow> (flow, world) prog" where
  "step_main1 text =
     (if text = VStr ru_close then bind (speak (VStr ru_bye)) (\<lambda>_. ret Break)
      else ret Continue)"

definition main1 :: "val list \<Rightarrow> world \<Rightarrow> status \<times> val list \<times> world" where
  "main1 = for_loop step_main1"

section \<open>Sample worlds\<close>

text \<open>
  Concrete collaborators and worlds, on which the theorems below are instantiated: a
  network that refuses every connection, and one that serves a dictionary entry, the
  character count, one character and its picture.
\<close>

definition ok_response :: "nat list \<Rightarrow> ustr + val \<Rightarrow> response" where
  "ok_response c j = \<lparr>status_code = 200, http_error = [], content = c, json = j\<rparr>"

definition avatar_url :: ustr where
  "avatar_url = asc ''https://rickandmortyapi.com/api/character/avatar/42.jpeg''"

definition avatar_bytes :: "nat list" where
  "avatar_bytes = [255, 216, 255, 224, 255, 217]"

definition rick :: val where
  "rick = VDict
     [(asc ''id'', VInt 42),
      (asc ''name'', VStr (asc ''Rick Sanchez'')),
      (asc ''origin'', VDict [(asc ''name'', VStr (asc ''Earth''))]),
      (asc ''location'', VDict [(asc ''name'', VStr (asc ''Citadel of Ricks''))]),
      (asc ''image'', VStr avatar_url),
      (asc ''episode'', VList [VStr (asc ''https://rickandmortyapi.com/api/episode/1'')])]"

definition hello_entry :: val where
  "hello_entry = VDict
     [(asc ''word'', VStr (asc ''hello'')),
      (asc ''meanings'', VList
         [VDict [(asc ''partOfSpeech'', VStr (asc ''noun'')),
                 (asc ''definitions'', VList
                    [VDict [(asc ''definition'', VStr (asc ''A greeting.''))]])]])]"

text \<open>
  The text that \<open>json.dump\<close> writes for this entry, code point by code point: the
  opening brace, a line feed, two blanks, the quoted key \<open>word\<close>, and so on.
\<close>

definition hello_text :: ustr where
  "hello_text =
     [123, 10, 32, 32, 34, 119, 111, 114, 100, 34, 58, 32, 34, 104, 101, 108, 108, 111, 34, 44,
      10, 32, 32, 34, 109, 101, 97, 110, 105, 110, 103, 115, 34, 58, 32, 91, 10, 32, 32, 32,
      32, 123, 10, 32, 32, 32, 32, 32, 32, 34, 112, 97, 114, 116, 79, 102, 83, 112, 101, 101,
      99, 104, 34, 58, 32, 34, 110, 111, 117, 110, 34, 44, 10, 32, 32, 32, 32, 32, 32, 34, 100,
      101, 102, 105, 110, 105, 116, 105, 111, 110, 115, 34, 58, 32, 91, 10, 32, 32, 32, 32, 32,
      32, 32, 32, 123, 10, 32, 32, 32, 32, 32, 32, 32, 32, 32, 32, 34, 100, 101, 102, 105, 110,
      105, 116, 105, 111, 110, 34, 58, 32, 34, 65, 32, 103, 114, 101, 101, 116, 105, 110, 103,
      46, 34, 10, 32, 32, 32, 32, 32, 32, 32, 32, 125, 10, 32, 32, 32, 32, 32, 32, 93, 10, 32,
      32, 32, 32, 125, 10, 32, 32, 93, 10, 125]"

definition ascii_alnum :: "nat \<Rightarrow> bool" where
  "ascii_alnum c = ((48 \<le> c \<and> c \<le> 57) \<or> (65 \<le> c \<and> c \<le> 90) \<or> (97 \<le> c \<and> c \<le> 122))"

definition offline :: env where
  "offline =
     \<lparr>http = (\<lambda>n url. Failed (asc ''Connection refused'')),
      rng = (\<lambda>n. 41),
      makedirs_fails = (\<lambda>p. False),
      open_fails = (\<lambda>p. False),
      image_size = (\<lambda>d. None),
      isalnum = ascii_alnum,
      unicode_lower = (\<lambda>s. s),
      repr = (\<lambda>v. []),
      flushed = (\<lambda>s. 0)\<rparr>"

definition count_body :: val where
  "count_body = VDict [(asc ''info'', VDict [(asc ''count'', VInt 826)])]"

definition served :: "nat \<Rightarrow> ustr \<Rightarrow> http_result" where
  "served n url =
     (if url = BASE_URL_dict @ asc ''hello'' then Answered (ok_response [] (Inr (VList [hello_entry])))
      else if url = BASE_URL_rm @ asc ''/character'' then Answered (ok_response [] (Inr count_body))
      else if url = BASE_URL_rm @ asc ''/character/42'' then Answered (ok_response [] (Inr rick))
      else if url = avatar_url then Answered (ok_response avatar_bytes (Inl (asc ''Expecting value'')))
      else Failed (asc ''Connection refused''))"

definition online :: env where
  "online =
     \<lparr>http = served,
      rng = (\<lambda>n. 41),
      makedirs_fails = (\<lambda>p. False),
      open_fails = (\<lambda>p. False),
      image_size = (\<lambda>d. if d = avatar_bytes then Some (300, 300) else None),
      isalnum = ascii_alnum,
      unicode_lower = (\<lambda>s. s),
      repr = (\<lambda>v. []),
      flushed = (\<lambda>s. 0)\<rparr>"

definition rm_start :: rm_world where
  "rm_start = \<lparr>files = Map.empty, log = [], requests = [], draws = 0, character = VNone\<rparr>"

definition dict_start :: dict_world where
  "dict_start = \<lparr>files = Map.empty, log = [], requests = [], draws = 0, entry = VNone\<rparr>"


definition hello_url :: ustr where
  "hello_url = BASE_URL_dict @ asc ''hello''"

definition hello_world :: dict_world where
  "hello_world = dict_start\<lparr>entry := hello_entry\<rparr>"

definition rick_world :: rm_world where
  "rick_world = rm_start\<lparr>character := rick\<rparr>"

text \<open>
  A decoder for the examples: a frame that ends in a zero sample completes an utterance;
  the first result is the text " exit " and every later one is empty.
\<close>

definition pause_decoder :: "nat decoder" where
  "pause_decoder =
     \<lparr>AcceptWaveform = (\<lambda>d data. (data \<noteq> [] \<and> last data = 0, d)),
      Result = (\<lambda>d. (VDict [(asc ''text'', VStr (if d = 0 then asc '' exit '' else []))], d + 1))\<rparr>"

text \<open>A decoder that finalises every frame with a text of one blank.\<close>

definition blank_decoder :: "nat decoder" where
  "blank_decoder =
     \<lparr>AcceptWaveform = (\<lambda>d data. (True, d)),
      Result = (\<lambda>d. (VDict [(asc ''text'', VStr (asc '' ''))], d))\<rparr>"

text \<open>The two URLs that \<open>random_character\<close> requests.\<close>

definition count_url :: ustr where
  "count_url = BASE_URL_rm @ asc ''/'' @ asc ''character''"

definition character_url :: "int \<Rightarrow> ustr" where
  "character_url i = BASE_URL_rm @ asc ''/'' @ asc ''character/'' @ dec_int i"

text \<open>
  The count query fails: the connection fails, the status is an error status, or the
  body is no JSON.
\<close>

definition query_failed :: "http_result \<Rightarrow> bool" where
  "query_failed q =
     (case q of
        Failed m \<Rightarrow> True
      | Answered r \<Rightarrow>
          (400 \<le> status_code r \<and> status_code r < 600)
          \<or> (case json r of Inl m \<Rightarrow> True | Inr body \<Rightarrow> False))"

text \<open>
  The count query is answered with a JSON object that has no \<open>info\<close>, or whose \<open>info\<close>
  is an object that has no \<open>count\<close>.
\<close>

definition answered_without_count :: "http_result \<Rightarrow> bool" where
  "answered_without_count q =
     (case q of
        Failed m \<Rightarrow> False
      | Answered r \<Rightarrow>
          \<not> (400 \<le> status_code r \<and> status_code r < 600)
          \<and> (case json r of
               Inr (VDict kvs) \<Rightarrow>
                 (case map_of kvs (asc ''info'') of
                    None \<Rightarrow> True
                  | Some (VDict inner) \<Rightarrow> map_of inner (asc ''count'') = None
                  | Some other \<Rightarrow> False)
             | _ \<Rightarrow> False))"

text \<open>
  The count query is answered, with no error status, by a JSON object whose \<open>info\<close> is
  an object with the count \<open>c\<close>.
\<close>

definition answered_with_count :: "http_result \<Rightarrow> val \<Rightarrow> bool" where
  "answered_with_count q c =
     (case q of
        Failed m \<Rightarrow> False
      | Answered r \<Rightarrow>
          \<not> (400 \<le> status_code r \<and> status_code r < 600)
          \<and> (case json r of
               Inr (VDict kvs) \<Rightarrow>
                 (case map_of kvs (asc ''info'') of
                    Some (VDict inner) \<Rightarrow> map_of inner (asc ''count'') = Some c
                  | _ \<Rightarrow> False)
             | _ \<Rightarrow> False))"

text \<open>A server whose count answer has a null \<open>info\<close>, and one whose character has no
  \<open>name\<close>.\<close>

definition null_info :: env where
  "null_info = online\<lparr>http := (\<lambda>n url.
       if url = count_url then Answered (ok_response [] (Inr (VDict [(asc ''info'', VNone)])))
       else served n url)\<rparr>"

definition nameless :: env where
  "nameless = online\<lparr>http := (\<lambda>n url.
       if url = character_url 42 then Answered (ok_response [] (Inr (VDict [(asc ''id'', VInt 42)])))
       else served n url)\<rparr>"

section \<open>The serialiser and the reader\<close>

text \<open>\<open>json.loads\<close> reads back what \<open>json.dump\<close> wrote.\<close>
lemma skip_ws_newline_indent: "skip_ws (newline_indent l @ r) = skip_ws r"
  by (simp add: skip_ws_def newline_indent_def is_json_ws_def dropWhile_append)

lemma skip_ws_id: "r = [] \<or> \<not> is_json_ws (hd r) \<Longrightarrow> skip_ws r = r"
  by (cases r) (auto simp add: skip_ws_def)

lemma hex_value_hex_digit: "n < 16 \<Longrightarrow> hex_value (hex_digit n) = Some n"
  by (auto simp add: hex_value_def hex_digit_def)

lemma hex4_escape:
  assumes "c < 32"
  shows "hex4 (48 # 48 # hex_digit (c div 16) # hex_digit (c mod 16) # r) = Some c"
proof -
  from assms have "c div 16 < 16" by simp
  moreover have "c mod 16 < 16" by simp
  moreover have "hex_value 48 = Some 0" by (simp add: hex_value_def)
  ultimately show ?thesis by (simp add: hex4.simps hex_value_hex_digit)
qed

lemma parse_chars_quote: "parse_chars acc (34 # r) = Some (acc, r)"
  by (simp add: parse_chars.simps)

lemma parse_chars_escape_char:
  "parse_chars acc (escape_char c @ r) = parse_chars (acc @ [c]) r"
proof -
  consider "c = 34" | "c = 92" | "c = 10" | "c = 13" | "c = 9" | "c = 8" | "c = 12"
    | "c < 32" "c \<notin> {8, 9, 10, 12, 13}" | "32 \<le> c" "c \<noteq> 34" "c \<noteq> 92"
    by force
  then show ?thesis
  proof cases
    case 8
    then have e: "escape_char c = [92, 117, 48, 48, hex_digit (c div 16), hex_digit (c mod 16)]"
      by (auto simp add: escape_char_def)
    from 8 have h: "hex4 (48 # 48 # hex_digit (c div 16) # hex_digit (c mod 16) # r) = Some c"
      by (simp add: hex4_escape)
    from 8 show ?thesis
      by (simp add: e) (subst parse_chars.simps, simp add: h)
  next
    case 9
    then show ?thesis
      by (subst parse_chars.simps) (simp add: escape_char_def)
  qed (subst parse_chars.simps, simp add: escape_char_def unescape_def)+
qed

lemma parse_chars_escaped:
  "parse_chars acc (concat (map escape_char s) @ 34 # r) = Some (acc @ s, r)"
proof (induction s arbitrary: acc)
  case Nil
  then show ?case by (simp add: parse_chars_quote)
next
  case (Cons c s)
  have "parse_chars acc (concat (map escape_char (c # s)) @ 34 # r)
      = parse_chars acc (escape_char c @ (concat (map escape_char s) @ 34 # r))"
    by simp
  also have "\<dots> = parse_chars (acc @ [c]) (concat (map escape_char s) @ 34 # r)"
    by (rule parse_chars_escape_char)
  also have "\<dots> = Some ((acc @ [c]) @ s, r)"
    by (rule Cons.IH)
  finally show ?case by simp
qed

lemma parse_json_string: "parse_chars [] (tl (json_string s @ r)) = Some (s, r)"
  using parse_chars_escaped [of "[]" s r] by (simp add: json_string_def)



lemma dec_nat_digits: "list_all is_digit (dec_nat n)"
proof (induction n rule: dec_nat.induct)
  case (1 n)
  show ?case
  proof (cases "n < 10")
    case True
    then show ?thesis by (subst dec_nat.simps) (simp add: is_digit_def)
  next
    case False
    with 1 have "list_all is_digit (dec_nat (n div 10))" by simp
    moreover have "is_digit (48 + n mod 10)" by (simp add: is_digit_def)
    ultimately show ?thesis using False by (subst dec_nat.simps) simp
  qed
qed

lemma dec_nat_nonempty: "dec_nat n \<noteq> []"
  by (subst dec_nat.simps) simp

lemma digits_value_snoc: "digits_value (ds @ [c]) = 10 * digits_value ds + (c - 48)"
  by (simp add: digits_value_def)

lemma digits_value_dec_nat: "digits_value (dec_nat n) = n"
proof (induction n rule: dec_nat.induct)
  case (1 n)
  show ?case
  proof (cases "n < 10")
    case True
    then show ?thesis by (subst dec_nat.simps) (simp add: digits_value_def)
  next
    case False
    with 1 have "digits_value (dec_nat (n div 10)) = n div 10" by simp
    with False show ?thesis
      by (subst dec_nat.simps) (simp add: digits_value_snoc)
  qed
qed

lemma hd_dec_nat_zero: "hd (dec_nat n) = 48 \<longleftrightarrow> n = 0"
proof (induction n rule: dec_nat.induct)
  case (1 n)
  show ?case
  proof (cases "n < 10")
    case True
    then show ?thesis by (subst dec_nat.simps) simp
  next
    case False
    with 1 have "hd (dec_nat (n div 10)) = 48 \<longleftrightarrow> n div 10 = 0" by simp
    moreover from False have "n div 10 \<noteq> 0" by simp
    moreover have "hd (dec_nat n) = hd (dec_nat (n div 10))"
      using False dec_nat_nonempty [of "n div 10"] by (subst dec_nat.simps) simp
    ultimately show ?thesis using False by simp
  qed
qed

lemma hd_dec_nat_digit: "is_digit (hd (dec_nat n))"
  using dec_nat_digits [of n] dec_nat_nonempty [of n]
  by (cases "dec_nat n") simp_all

lemma takeWhile_dec_nat:
  assumes "value_end r"
  shows "takeWhile is_digit (dec_nat n @ r) = dec_nat n"
proof -
  have "\<And>x. x \<in> set (dec_nat n) \<Longrightarrow> is_digit x"
    using dec_nat_digits [of n] by (simp add: list_all_iff)
  then have "takeWhile is_digit (dec_nat n @ r) = dec_nat n @ takeWhile is_digit r"
    by (rule takeWhile_append2)
  moreover from assms have "takeWhile is_digit r = []"
    by (cases r) (auto simp add: value_end_def is_digit_def)
  ultimately show ?thesis by simp
qed

lemma parse_number_dec_nat:
  assumes "value_end r"
  shows "parse_number (dec_nat n @ r) = Some (VInt (int n), r)"
proof (cases "n = 0")
  case True
  then have z: "dec_nat n = [48]" by (subst dec_nat.simps) simp
  from assms have e: "\<not> (r \<noteq> [] \<and> (hd r = 46 \<or> hd r = 101 \<or> hd r = 69))"
    by (auto simp add: value_end_def)
  have "parse_number (48 # r) = Some (VInt 0, r)"
    unfolding parse_number_def Let_def
    using e by (simp add: digits_value_def)
  with True z show ?thesis by simp
next
  case False
  let ?t = "dec_nat n @ r"
  have hd: "hd ?t = hd (dec_nat n)" using dec_nat_nonempty by simp
  have nz: "hd ?t \<noteq> 48" using False by (simp add: hd hd_dec_nat_zero)
  have pos: "hd ?t \<noteq> 45" using hd_dec_nat_digit [of n] by (simp add: hd is_digit_def)
  have tk: "takeWhile is_digit ?t = dec_nat n" using assms by (rule takeWhile_dec_nat)
  from assms have e: "\<not> (r \<noteq> [] \<and> (hd r = 46 \<or> hd r = 101 \<or> hd r = 69))"
    by (auto simp add: value_end_def)
  show ?thesis
    unfolding parse_number_def Let_def
    using nz pos e by (simp add: tk dec_nat_nonempty digits_value_dec_nat)
qed

lemma parse_number_dec_int:
  assumes "value_end r"
  shows "parse_number (dec_int i @ r) = Some (VInt i, r)"
proof (cases "i < 0")
  case False
  then show ?thesis
    using parse_number_dec_nat [OF assms, of "nat i"] by (simp add: dec_int_def)
next
  case True
  let ?n = "nat (- i)"
  let ?t = "dec_nat ?n @ r"
  from True have n0: "?n \<noteq> 0" by simp
  have hd: "hd ?t = hd (dec_nat ?n)" using dec_nat_nonempty by simp
  have nz: "hd ?t \<noteq> 48" using n0 by (simp add: hd hd_dec_nat_zero)
  have tk: "takeWhile is_digit ?t = dec_nat ?n" using assms by (rule takeWhile_dec_nat)
  from assms have e: "\<not> (r \<noteq> [] \<and> (hd r = 46 \<or> hd r = 101 \<or> hd r = 69))"
    by (auto simp add: value_end_def)
  have "parse_number (45 # ?t) = Some (VInt (- int ?n), r)"
    unfolding parse_number_def Let_def
    using nz e by (simp add: tk dec_nat_nonempty digits_value_dec_nat)
  with True show ?thesis by (simp add: dec_int_def)
qed


lemma hd_dec_int: "dec_int i \<noteq> [] \<and> (is_digit (hd (dec_int i)) \<or> hd (dec_int i) = 45)"
  using hd_dec_nat_digit dec_nat_nonempty by (simp add: dec_int_def)

lemma parse_value_number:
  assumes "s \<noteq> []" and "is_digit (hd s) \<or> hd s = 45"
  shows "parse_value (Suc n) s = parse_number s"
  using assms by (cases s) (auto simp add: startswith_def asc_def is_digit_def)

lemma json_string_hd: "json_string s = 34 # tl (json_string s)"
  by (simp add: json_string_def)

lemma parse_value_string:
  "parse_value (Suc n) (json_string s @ r) = Some (VStr s, r)"
proof -
  let ?cs = "concat (map escape_char s) @ 34 # r"
  have e: "json_string s @ r = 34 # ?cs"
    by (simp add: json_string_def)
  have "parse_chars [] ?cs = Some (s, r)"
    using parse_chars_escaped [of "[]" s r] by simp
  then show ?thesis by (simp add: e)
qed

lemma dumps_at_nonempty: "dumps_at l v \<noteq> []"
proof (cases v)
  case (VInt i)
  then show ?thesis using hd_dec_int [of i] by simp
qed (auto simp add: asc_def json_string_def)

lemma dumps_at_hd:
  "\<not> is_json_ws (hd (dumps_at l v)) \<and> hd (dumps_at l v) \<noteq> 93 \<and> hd (dumps_at l v) \<noteq> 125
   \<and> hd (dumps_at l v) \<noteq> 44"
proof (cases v)
  case (VInt i)
  then show ?thesis
    using hd_dec_int [of i] by (auto simp add: is_json_ws_def is_digit_def)
qed (auto simp add: asc_def json_string_def is_json_ws_def)

lemma newline_indent_length: "1 \<le> length (newline_indent l)"
  by (simp add: newline_indent_def)

lemma value_end_cases: "value_end (44 # r)" "value_end (newline_indent l @ r)" "value_end []"
  by (simp_all add: value_end_def newline_indent_def)

lemma skip_ws_cons: "\<not> is_json_ws c \<Longrightarrow> skip_ws (c # r) = c # r"
  by (simp add: skip_ws_def)

lemma skip_ws_dumps_at: "skip_ws (dumps_at l v @ r) = dumps_at l v @ r"
  using dumps_at_nonempty [of l v] dumps_at_hd [of l v]
  by (cases "dumps_at l v") (simp_all add: skip_ws_cons)

lemma dumps_items_start:
  assumes "xs \<noteq> []"
  shows "skip_ws (dumps_items l xs @ r) = dumps_items l xs @ r"
    and "dumps_items l xs @ r \<noteq> []"
    and "hd (dumps_items l xs @ r) \<noteq> 93"
proof -
  from assms obtain x ys where xs: "xs = x # ys" by (cases xs) auto
  then obtain t where t: "dumps_items l xs @ r = dumps_at l x @ t" by simp
  show "skip_ws (dumps_items l xs @ r) = dumps_items l xs @ r"
    by (simp only: t skip_ws_dumps_at)
  show "dumps_items l xs @ r \<noteq> []"
    using dumps_at_nonempty [of l x] by (simp only: t) simp
  show "hd (dumps_items l xs @ r) \<noteq> 93"
    using dumps_at_nonempty [of l x] dumps_at_hd [of l x] by (simp only: t) simp
qed

lemma dumps_members_start:
  assumes "kvs \<noteq> []"
  shows "skip_ws (dumps_members l kvs @ r) = dumps_members l kvs @ r"
    and "dumps_members l kvs @ r \<noteq> []"
    and "hd (dumps_members l kvs @ r) = 34"
proof -
  from assms obtain kv ys where "kvs = kv # ys" by (cases kvs) auto
  then obtain t where t: "dumps_members l kvs @ r = 34 # t" by (simp add: json_string_def)
  show "skip_ws (dumps_members l kvs @ r) = dumps_members l kvs @ r"
    by (simp only: t) (simp add: skip_ws_cons is_json_ws_def)
  show "dumps_members l kvs @ r \<noteq> []" by (simp only: t) simp
  show "hd (dumps_members l kvs @ r) = 34" by (simp only: t) simp
qed

lemma dict_set_new: "k \<notin> set (map fst acc) \<Longrightarrow> dict_set acc k v = acc @ [(k, v)]"
  by (simp add: dict_set_def)

lemma parse_items_step:
  assumes "parse_value m s = Some (x, r)"
  shows "parse_items (Suc m) acc s =
     (let r1 = skip_ws r
      in if r1 \<noteq> [] \<and> hd r1 = 44 then parse_items m (acc @ [x]) (skip_ws (tl r1))
         else if r1 \<noteq> [] \<and> hd r1 = 93 then Some (VList (acc @ [x]), tl r1)
         else None)"
  using assms by simp

lemma parse_members_step:
  assumes "parse_value m (dumps_at l v @ r) = Some (v, r)"
  shows "parse_members (Suc m) acc (json_string k @ [58, 32] @ dumps_at l v @ r) =
     (let r3 = skip_ws r
      in if r3 \<noteq> [] \<and> hd r3 = 44 then parse_members m (dict_set acc k v) (skip_ws (tl r3))
         else if r3 \<noteq> [] \<and> hd r3 = 125 then Some (VDict (dict_set acc k v), tl r3)
         else None)"
proof -
  let ?s = "json_string k @ [58, 32] @ dumps_at l v @ r"
  have h: "?s \<noteq> [] \<and> hd ?s = 34" by (simp add: json_string_def)
  have c: "parse_chars [] (tl ?s) = Some (k, 58 # 32 # dumps_at l v @ r)"
    using parse_json_string [of k "[58, 32] @ dumps_at l v @ r"] by simp
  have s1: "skip_ws (58 # 32 # dumps_at l v @ r) = 58 # 32 # dumps_at l v @ r"
    by (simp add: skip_ws_cons is_json_ws_def)
  have s2: "skip_ws (32 # dumps_at l v @ r) = dumps_at l v @ r"
    using skip_ws_dumps_at [of l v r] by (simp add: skip_ws_def is_json_ws_def)
  show ?thesis
    by (subst parse_members.simps(2))
       (simp only: h c s1 s2 assms Let_def option.case prod.case list.sel if_True simp_thms,
        simp)
qed


lemma parse_dumps:
  "\<forall>n rest. length (dumps_at l1 v) \<le> n \<longrightarrow> value_end rest \<longrightarrow> distinct_keys v \<longrightarrow>
      parse_value n (dumps_at l1 v @ rest) = Some (v, rest)"
  "xs \<noteq> [] \<longrightarrow>
     (\<forall>n acc l' rest. length (dumps_items l2 xs) < n \<longrightarrow> list_all distinct_keys xs \<longrightarrow>
        parse_items n acc (dumps_items l2 xs @ newline_indent l' @ 93 # rest)
          = Some (VList (acc @ xs), rest))"
  "kvs \<noteq> [] \<longrightarrow>
     (\<forall>n acc l' rest. length (dumps_members l3 kvs) < n \<longrightarrow>
        distinct (map fst (acc @ kvs)) \<longrightarrow> list_all (\<lambda>kv. distinct_keys (snd kv)) kvs \<longrightarrow>
        parse_members n acc (dumps_members l3 kvs @ newline_indent l' @ 125 # rest)
          = Some (VDict (acc @ kvs), rest))"
proof (induction l1 v and l2 xs and l3 kvs rule: dumps_at_dumps_items_dumps_members.induct)
  case (1 level)
  show ?case
  proof (intro allI impI)
    fix n rest
    assume "length (dumps_at level VNone) \<le> n"
    then obtain m where "n = Suc m" by (cases n) (auto simp add: asc_def)
    then show "parse_value n (dumps_at level VNone @ rest) = Some (VNone, rest)"
      by (simp add: asc_def startswith_def)
  qed
next
  case (2 level b)
  show ?case
  proof (intro allI impI)
    fix n rest
    assume "length (dumps_at level (VBool b)) \<le> n"
    then obtain m where "n = Suc m" by (cases n; cases b) (auto simp add: asc_def)
    then show "parse_value n (dumps_at level (VBool b) @ rest) = Some (VBool b, rest)"
      by (cases b) (simp_all add: asc_def startswith_def)
  qed
next
  case (3 level i)
  show ?case
  proof (intro allI impI)
    fix n rest
    assume len: "length (dumps_at level (VInt i)) \<le> n" and ve: "value_end rest"
    from len hd_dec_int [of i] obtain m where n: "n = Suc m" by (cases n) auto
    have "parse_value (Suc m) (dec_int i @ rest) = parse_number (dec_int i @ rest)"
      using hd_dec_int [of i] by (intro parse_value_number) auto
    with ve show "parse_value n (dumps_at level (VInt i) @ rest) = Some (VInt i, rest)"
      by (simp add: n parse_number_dec_int del: parse_value.simps)
  qed
next
  case (4 level s)
  show ?case
  proof (intro allI impI)
    fix n rest
    assume "length (dumps_at level (VStr s)) \<le> n"
    then obtain m where "n = Suc m" by (cases n) (auto simp add: json_string_def)
    then show "parse_value n (dumps_at level (VStr s) @ rest) = Some (VStr s, rest)"
      using parse_value_string [of m s rest] by (simp del: parse_value.simps)
  qed
next
  case (5 level xs)
  show ?case
  proof (intro allI impI)
    fix n rest
    assume len: "length (dumps_at level (VList xs)) \<le> n"
      and dk: "distinct_keys (VList xs)"
    show "parse_value n (dumps_at level (VList xs) @ rest) = Some (VList xs, rest)"
    proof (cases "xs = []")
      case True
      from len True obtain m where n: "n = Suc m" by (cases n) (auto simp add: asc_def)
      show ?thesis
        using True by (simp add: n asc_def skip_ws_cons is_json_ws_def)
    next
      case False
      let ?tail = "dumps_items (Suc level) xs @ newline_indent level @ 93 # rest"
      from len False newline_indent_length [of level] newline_indent_length [of "Suc level"]
      obtain m where n: "n = Suc m" and m: "length (dumps_items (Suc level) xs) < m"
        by (cases n) auto
      have t: "dumps_at level (VList xs) @ rest = 91 # newline_indent (Suc level) @ ?tail"
        using False by simp
      have sk: "skip_ws (newline_indent (Suc level) @ ?tail) = ?tail"
        using dumps_items_start(1) [OF False] by (simp add: skip_ws_newline_indent)
      have ne: "?tail \<noteq> []" "hd ?tail \<noteq> 93"
        using dumps_items_start(2,3) [OF False] by auto
      from 5 False m dk
      have "parse_items m [] ?tail = Some (VList ([] @ xs), rest)"
        by simp
      then show ?thesis
        using ne by (simp only: t n parse_value.simps list.case) (simp add: sk Let_def)
    qed
  qed
next
  case (6 level kvs)
  show ?case
  proof (intro allI impI)
    fix n rest
    assume len: "length (dumps_at level (VDict kvs)) \<le> n"
      and dk: "distinct_keys (VDict kvs)"
    show "parse_value n (dumps_at level (VDict kvs) @ rest) = Some (VDict kvs, rest)"
    proof (cases "kvs = []")
      case True
      from len True obtain m where n: "n = Suc m" by (cases n) (auto simp add: asc_def)
      show ?thesis
        using True by (simp add: n asc_def skip_ws_cons is_json_ws_def)
    next
      case False
      let ?tail = "dumps_members (Suc level) kvs @ newline_indent level @ 125 # rest"
      from len False newline_indent_length [of level] newline_indent_length [of "Suc level"]
      obtain m where n: "n = Suc m" and m: "length (dumps_members (Suc level) kvs) < m"
        by (cases n) auto
      have t: "dumps_at level (VDict kvs) @ rest = 123 # newline_indent (Suc level) @ ?tail"
        using False by simp
      have sk: "skip_ws (newline_indent (Suc level) @ ?tail) = ?tail"
        using dumps_members_start(1) [OF False] by (simp add: skip_ws_newline_indent)
      have ne: "?tail \<noteq> []" "hd ?tail \<noteq> 125"
        using dumps_members_start(2,3) [OF False] by auto
      from 6 False m dk
      have "parse_members m [] ?tail = Some (VDict ([] @ kvs), rest)"
        by simp
      then show ?thesis
        using ne by (simp only: t n parse_value.simps list.case) (simp add: sk Let_def)
    qed
  qed
next
  case (7 level)
  show ?case by simp
next
  case (8 level x xs)
  show ?case
  proof (intro allI impI)
    fix n acc l' rest
    assume len: "length (dumps_items level (x # xs)) < n"
      and dk: "list_all distinct_keys (x # xs)"
    let ?close = "newline_indent l' @ 93 # rest"
    let ?R = "(if xs = [] then [] else [44] @ newline_indent level @ dumps_items level xs) @ ?close"
    from len obtain m where n: "n = Suc m" and m: "length (dumps_items level (x # xs)) \<le> m"
      by (cases n) auto
    have ve: "value_end ?R"
      by (simp add: value_end_cases)
    from m have lx: "length (dumps_at level x) \<le> m" by simp
    from 8(1) lx ve dk have pv: "parse_value m (dumps_at level x @ ?R) = Some (x, ?R)"
      by simp
    have t: "dumps_items level (x # xs) @ ?close = dumps_at level x @ ?R"
      by simp
    show "parse_items n acc (dumps_items level (x # xs) @ newline_indent l' @ 93 # rest)
            = Some (VList (acc @ x # xs), rest)"
    proof (cases "xs = []")
      case True
      then have R: "?R = ?close" by simp
      have sk: "skip_ws ?close = 93 # rest"
        by (simp add: skip_ws_newline_indent skip_ws_cons is_json_ws_def)
      from pv have pv': "parse_value m (dumps_at level x @ ?close) = Some (x, ?close)"
        by (simp only: R)
      from True have t': "dumps_items level (x # xs) @ ?close = dumps_at level x @ ?close"
        by simp
      show ?thesis
        by (simp only: t' n parse_items_step [OF pv'] Let_def sk) (simp add: True)
    next
      case False
      let ?next = "dumps_items level xs @ ?close"
      let ?R' = "44 # newline_indent level @ ?next"
      from False have R: "?R = ?R'" by simp
      have s1: "skip_ws ?R' = ?R'"
        by (simp add: skip_ws_cons is_json_ws_def)
      have s2: "skip_ws (newline_indent level @ ?next) = ?next"
        using dumps_items_start(1) [OF False] by (simp add: skip_ws_newline_indent)
      from pv have pv': "parse_value m (dumps_at level x @ ?R') = Some (x, ?R')"
        by (simp only: R)
      from False have t': "dumps_items level (x # xs) @ ?close = dumps_at level x @ ?R'"
        by simp
      from m False dumps_at_nonempty [of level x] newline_indent_length [of level]
      have "length (dumps_items level xs) < m"
        by (cases "dumps_at level x") auto
      with 8(2) False dk
      have "parse_items m (acc @ [x]) ?next = Some (VList ((acc @ [x]) @ xs), rest)"
        by simp
      then show ?thesis
        by (simp only: t' n parse_items_step [OF pv'] Let_def s1) (simp add: s2)
    qed
  qed
next
  case (9 level)
  show ?case by simp
next
  case (10 level kv kvs)
  show ?case
  proof (intro allI impI)
    fix n acc l' rest
    assume len: "length (dumps_members level (kv # kvs)) < n"
      and dist: "distinct (map fst (acc @ kv # kvs))"
      and dk: "list_all (\<lambda>kv. distinct_keys (snd kv)) (kv # kvs)"
    obtain k v where kv: "kv = (k, v)" by (cases kv)
    let ?close = "newline_indent l' @ 125 # rest"
    let ?R = "(if kvs = [] then [] else [44] @ newline_indent level @ dumps_members level kvs) @ ?close"
    from len obtain m where n: "n = Suc m" and m: "length (dumps_members level (kv # kvs)) \<le> m"
      by (cases n) auto
    have ve: "value_end ?R"
      by (simp add: value_end_cases)
    from m have lx: "length (dumps_at level v) \<le> m" by (simp add: kv)
    from 10(1) lx ve dk have pv: "parse_value m (dumps_at level v @ ?R) = Some (v, ?R)"
      by (simp add: kv)
    have t: "dumps_members level (kv # kvs) @ ?close
        = json_string k @ [58, 32] @ dumps_at level v @ ?R"
      by (simp add: kv)
    from dist have new: "dict_set acc k v = acc @ [kv]"
      by (simp add: kv dict_set_new)
    show "parse_members n acc (dumps_members level (kv # kvs) @ newline_indent l' @ 125 # rest)
            = Some (VDict (acc @ kv # kvs), rest)"
    proof (cases "kvs = []")
      case True
      then have R: "?R = ?close" by simp
      have sk: "skip_ws ?close = 125 # rest"
        by (simp add: skip_ws_newline_indent skip_ws_cons is_json_ws_def)
      from pv have pv': "parse_value m (dumps_at level v @ ?close) = Some (v, ?close)"
        by (simp only: R)
      from True have t': "dumps_members level (kv # kvs) @ ?close
          = json_string k @ [58, 32] @ dumps_at level v @ ?close"
        by (simp add: kv)
      show ?thesis
        by (simp only: t' n parse_members_step [OF pv'] Let_def sk new) (simp add: True)
    next
      case False
      let ?next = "dumps_members level kvs @ ?close"
      let ?R' = "44 # newline_indent level @ ?next"
      from False have R: "?R = ?R'" by simp
      have s1: "skip_ws ?R' = ?R'"
        by (simp add: skip_ws_cons is_json_ws_def)
      have s2: "skip_ws (newline_indent level @ ?next) = ?next"
        using dumps_members_start(1) [OF False] by (simp add: skip_ws_newline_indent)
      from pv have pv': "parse_value m (dumps_at level v @ ?R') = Some (v, ?R')"
        by (simp only: R)
      from False have t': "dumps_members level (kv # kvs) @ ?close
          = json_string k @ [58, 32] @ dumps_at level v @ ?R'"
        by (simp add: kv)
      from m False dumps_at_nonempty [of level v] newline_indent_length [of level]
      have "length (dumps_members level kvs) < m"
        by (cases "dumps_at level v") (auto simp add: kv)
      moreover from dist have "distinct (map fst ((acc @ [kv]) @ kvs))" by simp
      ultimately
      have "parse_members m (acc @ [kv]) ?next = Some (VDict ((acc @ [kv]) @ kvs), rest)"
        using 10(2) False dk by simp
      then show ?thesis
        by (simp only: t' n parse_members_step [OF pv'] Let_def s1 new) (simp add: s2)
    qed
  qed
qed

lemma json_round_trip:
  assumes "distinct_keys v"
  shows "json_loads (json_dumps v) = Some v"
proof -
  have le: "length (dumps_at 0 v) \<le> 2 * length (json_dumps v) + 2"
    by (simp add: json_dumps_def)
  have "parse_value (2 * length (json_dumps v) + 2) (dumps_at 0 v @ []) = Some (v, [])"
    using parse_dumps(1) [of 0 v] le value_end_cases(3) assms by blast
  moreover have "skip_ws (json_dumps v) = dumps_at 0 v @ []"
    using skip_ws_dumps_at [of 0 v "[]"] by (simp add: json_dumps_def)
  ultimately have p: "parse_value (2 * length (json_dumps v) + 2) (skip_ws (json_dumps v))
      = Some (v, [])"
    by (simp only:)
  show ?thesis
    unfolding json_loads_def by (simp only: p) (simp add: skip_ws_def)
qed

section \<open>Evaluation lemmas\<close>

lemmas prog_defs = bind_def ret_def lift_def sbind_def speak_def

lemmas str_defs = strip_def lstrip_def rstrip_def is_space_def asc_def startswith_def
  lower_def lower_cp_def known_cp_def

lemmas ru_defs = ru_random_def ru_save_def ru_episode_def ru_show_def ru_resolution_def
  ru_origin_def ru_location_def ru_episode_list_def ru_exit_def ru_farewell_def

lemma exit_aliases_dict:
  "map_of COMMANDS_dict a = Some (asc ''exit'') \<Longrightarrow>
   a = asc ''exit'' \<or> a = ru_exit \<or> a = asc ''quit''"
  by (simp add: COMMANDS_dict_def asc_def split: if_splits)

lemma exit_aliases_rm: "map_of COMMANDS_rm a = Some (asc ''exit'') \<Longrightarrow> a = ru_exit"
  by (simp add: COMMANDS_rm_def asc_def split: if_splits)

lemma perform_exit:
  "perform e (Some (asc ''exit'')) w
     = (Inr Break, w\<lparr>log := log w @ [Speak (VStr (asc ''Goodbye!''))]\<rparr>)"
  by (simp add: perform_def prog_defs)


lemma exit_texts_dict:
  "find_param (asc ''exit'') = None" "strip (asc ''exit'') = asc ''exit''"
  "find_param ru_exit = None" "strip ru_exit = ru_exit"
  "find_param (asc ''quit'') = None" "strip (asc ''quit'') = asc ''quit''"
  by (simp_all add: find_param_def str_defs ru_exit_def ru_find_def)

lemma step_dict_exit:
  assumes "map_of COMMANDS_dict a = Some (asc ''exit'')"
  shows "step_dict e a w = (Inr Break, w\<lparr>log := log w @ [Speak (VStr (asc ''Goodbye!''))]\<rparr>)"
proof -
  from exit_aliases_dict [OF assms] have "find_param a = None \<and> strip a = a"
    using exit_texts_dict by auto
  then show ?thesis
    using assms by (simp add: step_dict_def perform_exit)
qed

lemma exit_text_rm: "contains (lower full ru_exit) ru_exit"
  by (simp add: str_defs ru_exit_def)

lemma step_rm_exit:
  "contains (lower (unicode_lower e) t) ru_exit \<or> contains (lower (unicode_lower e) t) ru_farewell \<Longrightarrow>
   step_rm e t w = (Inr Break, w\<lparr>log := log w @ [Speak (VStr ru_goodbye)]\<rparr>)"
  by (simp add: step_rm_def Let_def prog_defs)






section \<open>The claims\<close>




text \<open>
  C2 at the text "find a find b": the word handed to the lookup should be what follows
  the trigger, "a find b"; \<open>str.replace\<close> removes every occurrence of the trigger, and
  the word looked up is "a b".
\<close>

theorem C2_every_trigger_occurrence_removed:
  "startswith (asc ''find a find b'') (asc ''find '')
   \<and> strip (drop (length (asc ''find '')) (asc ''find a find b'')) = asc ''a find b''
   \<and> find_param (asc ''find a find b'') = Some (asc ''a b'')
   \<and> requests (snd (step_dict offline (asc ''find a find b'') dict_start))
        = [BASE_URL_dict @ asc ''a b'']"
proof -
  have fp: "find_param (asc ''find a find b'') = Some (asc ''a b'')"
    by (simp add: find_param_def str_defs replace.simps)
  have ne: "asc ''a b'' \<noteq> []"
    by (simp add: asc_def)
  have "find_word offline (asc ''a b'') dict_start
      = (Inr (VBool False, VStr (asc ''Connection refused'')),
         dict_start\<lparr>requests := [BASE_URL_dict @ asc ''a b'']\<rparr>)"
    by (simp add: find_word_def get_json_def requests_get_def prog_defs offline_def dict_start_def)
  then have "requests (snd (step_dict offline (asc ''find a find b'') dict_start))
        = [BASE_URL_dict @ asc ''a b'']"
    using ne by (simp add: step_dict_def fp prog_defs)
  moreover have "startswith (asc ''find a find b'') (asc ''find '')
     \<and> strip (drop (length (asc ''find '')) (asc ''find a find b'')) = asc ''a find b''"
    by (simp add: str_defs)
  ultimately show ?thesis using fp by blast
qed

text \<open>
  C3 at a network failure: with a character selected and every connection refused,
  \<open>save_image\<close> and \<open>show_image\<close> raise the exception of \<open>requests.get\<close> instead of
  returning an error message, and the session loop ends with it; the handlers that go
  through \<open>_fetch\<close> return the message.
\<close>

theorem C3_image_handlers_raise_on_network_failure:
  "save_image offline (asc ''images'') (rm_start\<lparr>character := rick\<rparr>)
     = (Inl (RequestException (asc ''Connection refused'')),
        rm_start\<lparr>character := rick, requests := [avatar_url]\<rparr>)
   \<and> show_image offline (rm_start\<lparr>character := rick\<rparr>)
     = (Inl (RequestException (asc ''Connection refused'')),
        rm_start\<lparr>character := rick, requests := [avatar_url]\<rparr>)
   \<and> main_rm offline [ru_save, ru_exit] (rm_start\<lparr>character := rick\<rparr>)
     = (Crashed (RequestException (asc ''Connection refused'')), [ru_exit],
        rm_start\<lparr>character := rick, requests := [avatar_url]\<rparr>)
   \<and> fetch offline (asc ''character'') rm_start
     = (Inr (VDict [(asc ''error'', VStr (asc ''Connection refused''))]),
        rm_start\<lparr>requests := [BASE_URL_rm @ asc ''/character'']\<rparr>)"
proof -
  have img: "subscript_str rick (asc ''image'') = Inr (VStr avatar_url)"
    by (simp add: rick_def asc_def)
  have sv: "save_image offline (asc ''images'') (rm_start\<lparr>character := rick\<rparr>)
     = (Inl (RequestException (asc ''Connection refused'')),
        rm_start\<lparr>character := rick, requests := [avatar_url]\<rparr>)"
    unfolding save_image_def
    by (simp add: rm_start_def img bind_def lift_def makedirs_def requests_get_def)
       (simp add: rick_def offline_def)
  have sh: "show_image offline (rm_start\<lparr>character := rick\<rparr>)
     = (Inl (RequestException (asc ''Connection refused'')),
        rm_start\<lparr>character := rick, requests := [avatar_url]\<rparr>)"
    unfolding show_image_def
    by (simp add: rm_start_def img bind_def lift_def requests_get_def)
       (simp add: rick_def offline_def)
  have chain: "\<And>full. \<not> contains (lower full ru_save) ru_exit \<and> \<not> contains (lower full ru_save) ru_farewell
      \<and> \<not> contains (lower full ru_save) ru_random \<and> contains (lower full ru_save) ru_save"
    by (simp add: str_defs ru_defs)
  then have "step_rm offline ru_save (rm_start\<lparr>character := rick\<rparr>)
     = (Inl (RequestException (asc ''Connection refused'')),
        rm_start\<lparr>character := rick, requests := [avatar_url]\<rparr>)"
    by (simp add: step_rm_def Let_def bind_def sv)
  then have mn: "main_rm offline [ru_save, ru_exit] (rm_start\<lparr>character := rick\<rparr>)
     = (Crashed (RequestException (asc ''Connection refused'')), [ru_exit],
        rm_start\<lparr>character := rick, requests := [avatar_url]\<rparr>)"
    by (simp add: main_rm_def)
  have ft: "fetch offline (asc ''character'') rm_start
     = (Inr (VDict [(asc ''error'', VStr (asc ''Connection refused''))]),
        rm_start\<lparr>requests := [BASE_URL_rm @ asc ''/character'']\<rparr>)"
    by (simp add: fetch_def get_json_def requests_get_def prog_defs offline_def rm_start_def)
       (simp add: asc_def)
  from sv sh mn ft show ?thesis by blast
qed

text \<open>
  C5.  Every phrase that \<open>COMMANDS\<close> maps to \<open>exit\<close>, in the dictionary assistant and in
  the Rick and Morty assistant, and the closing word of \<open>main1.py\<close>: the farewell is
  spoken, the loop stops, and the texts that follow are not drawn from the recogniser.
\<close>

theorem C5_exit_stops_the_loop:
  "(map_of COMMANDS_dict a = Some (asc ''exit'') \<longrightarrow>
      main_dict e (a # rest) w
        = (Stopped, rest, w\<lparr>log := log w @ [Speak (VStr (asc ''Goodbye!''))]\<rparr>))
   \<and> (map_of COMMANDS_rm b = Some (asc ''exit'') \<longrightarrow>
      main_rm e (b # rest) v = (Stopped, rest, v\<lparr>log := log v @ [Speak (VStr ru_goodbye)]\<rparr>))
   \<and> main1 (VStr ru_close # rest') u
        = (Stopped, rest', u\<lparr>log := log u @ [Speak (VStr ru_bye)]\<rparr>)"
proof (intro conjI impI)
  assume "map_of COMMANDS_dict a = Some (asc ''exit'')"
  then show "main_dict e (a # rest) w
        = (Stopped, rest, w\<lparr>log := log w @ [Speak (VStr (asc ''Goodbye!''))]\<rparr>)"
    by (simp add: main_dict_def step_dict_exit)
next
  assume "map_of COMMANDS_rm b = Some (asc ''exit'')"
  then have "b = ru_exit" by (rule exit_aliases_rm)
  then show "main_rm e (b # rest) v = (Stopped, rest, v\<lparr>log := log v @ [Speak (VStr ru_goodbye)]\<rparr>)"
    by (simp add: main_rm_def step_rm_exit exit_text_rm)
next
  show "main1 (VStr ru_close # rest') u
        = (Stopped, rest', u\<lparr>log := log u @ [Speak (VStr ru_bye)]\<rparr>)"
    by (simp add: main1_def step_main1_def prog_defs)
qed

theorem C5_exit_stops_the_loop_witness:
  "map_of COMMANDS_dict (asc ''quit'') = Some (asc ''exit'')
   \<and> main_dict online [asc ''quit'', asc ''save''] dict_start
        = (Stopped, [asc ''save''], dict_start\<lparr>log := [Speak (VStr (asc ''Goodbye!''))]\<rparr>)
   \<and> map_of COMMANDS_rm ru_exit = Some (asc ''exit'')
   \<and> main_rm online [ru_exit, asc ''save''] rm_start
        = (Stopped, [asc ''save''], rm_start\<lparr>log := [Speak (VStr ru_goodbye)]\<rparr>)"
proof -
  have a: "map_of COMMANDS_dict (asc ''quit'') = Some (asc ''exit'')"
    by (simp add: COMMANDS_dict_def asc_def ru_defs ru_meaning_def ru_example_def ru_link_def)
  have b: "map_of COMMANDS_rm ru_exit = Some (asc ''exit'')"
    by (simp add: COMMANDS_rm_def ru_defs)
  from C5_exit_stops_the_loop
         [of "asc ''quit''" online "[asc ''save'']" dict_start ru_exit rm_start]
  show ?thesis using a b by (simp add: dict_start_def rm_start_def)
qed

text \<open>
  C6.  With nothing selected (\<open>self.character\<close> or \<open>self.entry\<close> is \<open>None\<close>, or any
  other false value), each of the eleven handlers that depend on the selection returns
  its fixed message, raises nothing and leaves the world as it is.
\<close>

theorem C6_nothing_selected:
  "(\<not> truthy (character w) \<longrightarrow>
       save_image e folder w = (Inr (VNone, VStr (asc ''Character not selected.'')), w)
     \<and> first_episode e w = (Inr (VNone, VStr (asc ''Character not selected.'')), w)
     \<and> show_image e w = (Inr (VNone, VStr (asc ''Character not selected.'')), w)
     \<and> image_resolution e w = (Inr (VNone, VStr (asc ''Character not selected.'')), w)
     \<and> origin w = (Inr (VNone, VStr (asc ''Character not selected.'')), w)
     \<and> location w = (Inr (VNone, VStr (asc ''Character not selected.'')), w)
     \<and> episodes_list e w = (Inr (VNone, VStr (asc ''Character not selected.'')), w))
   \<and> (\<not> truthy (entry v) \<longrightarrow>
       save e folder v = (Inr (VBool False, VStr (asc ''No word selected.'')), v)
     \<and> meaning e v = (Inr (VNone, VStr (asc ''No word selected.'')), v)
     \<and> example v = (Inr (VNone, VStr (asc ''No word selected.'')), v)
     \<and> link e v = (Inr (VNone, VStr (asc ''No word selected.'')), v))"
  by (simp add: save_image_def first_episode_def show_image_def image_resolution_def
      origin_def location_def episodes_list_def save_def meaning_def example_def link_def
      not_selected_rm_def no_word_def)

theorem C6_nothing_selected_witness:
  "\<not> truthy (character rm_start)
   \<and> save_image online (asc ''images'') rm_start
        = (Inr (VNone, VStr (asc ''Character not selected.'')), rm_start)
   \<and> episodes_list online rm_start
        = (Inr (VNone, VStr (asc ''Character not selected.'')), rm_start)
   \<and> \<not> truthy (entry dict_start)
   \<and> save online (asc ''dictionary_entries'') dict_start
        = (Inr (VBool False, VStr (asc ''No word selected.'')), dict_start)
   \<and> meaning online dict_start = (Inr (VNone, VStr (asc ''No word selected.'')), dict_start)"
proof -
  have a: "\<not> truthy (character rm_start)" by (simp add: rm_start_def)
  have b: "\<not> truthy (entry dict_start)" by (simp add: dict_start_def)
  from C6_nothing_selected [of rm_start online "asc ''images''" dict_start] a b
  have "save_image online (asc ''images'') rm_start
        = (Inr (VNone, VStr (asc ''Character not selected.'')), rm_start)
     \<and> episodes_list online rm_start
        = (Inr (VNone, VStr (asc ''Character not selected.'')), rm_start)
     \<and> meaning online dict_start = (Inr (VNone, VStr (asc ''No word selected.'')), dict_start)"
    by blast
  moreover from C6_nothing_selected [of rm_start online "asc ''dictionary_entries''" dict_start] b
  have "save online (asc ''dictionary_entries'') dict_start
        = (Inr (VBool False, VStr (asc ''No word selected.'')), dict_start)"
    by blast
  ultimately show ?thesis using a b by blast
qed

text \<open>The order of the side effect and the speech, handler by handler.\<close>

lemma chain_show:
  "\<not> contains (lower full ru_show) ru_exit" "\<not> contains (lower full ru_show) ru_farewell"
  "\<not> contains (lower full ru_show) ru_random" "\<not> contains (lower full ru_show) ru_save"
  "\<not> contains (lower full ru_show) ru_episode" "\<not> contains (lower full ru_show) ru_episode_list"
  "contains (lower full ru_show) ru_show"
  by (simp_all add: str_defs ru_defs)

lemma chain_save:
  "\<not> contains (lower full ru_save) ru_exit" "\<not> contains (lower full ru_save) ru_farewell"
  "\<not> contains (lower full ru_save) ru_random" "contains (lower full ru_save) ru_save"
  by (simp_all add: str_defs ru_defs)

lemma step_rm_show:
  "step_rm e ru_show = bind (show_image e) (\<lambda>(msg, err). speak_result msg err)"
  by (simp add: step_rm_def Let_def chain_show)

lemma step_rm_save:
  "step_rm e ru_save = bind (save_image e (asc ''images'')) (\<lambda>(path, err).
     speak_result (VStr (ru_saved @ py_str (repr e) path)) err)"
  by (simp add: step_rm_def Let_def chain_save)

lemma show_image_effect:
  assumes "show_image e w = (Inr (msg, err), w')" and "\<not> truthy err"
  shows "\<exists>img. log w' = log w @ [ShowImage img]"
  using assms
  by (auto simp add: show_image_def bind_def lift_def ret_def requests_get_def image_open_def
      not_selected_rm_def asc_def
      split: if_splits sum.splits prod.splits http_result.splits option.splits)

lemma save_image_effect:
  assumes "save_image e folder w = (Inr (path, err), w')" and "\<not> truthy err"
  shows "\<exists>p. path = VStr p \<and> log w' = log w @ [WriteFile p]"
  using assms
  by (auto simp add: save_image_def bind_def lift_def ret_def requests_get_def makedirs_def
      write_binary_def Let_def not_selected_rm_def asc_def
      split: if_splits sum.splits prod.splits http_result.splits)

lemma save_effect:
  assumes "save e folder w = (Inr (ok, res), w')" and "truthy ok"
  shows "\<exists>p. res = VStr p \<and> log w' = log w @ [WriteFile p]"
  using assms
  by (auto simp add: save_def bind_def lift_def ret_def makedirs_def write_text_def Let_def
      split: if_splits sum.splits prod.splits)

text \<open>
  C4, as amended.  Where a handler's result carries a side effect, the side effect comes
  first and the message is spoken after it: the link is opened and then announced, the
  image is displayed and then confirmed, the file is written and then reported.  When
  the handler raises while performing the side effect, the loop body raises with it and
  nothing is spoken.
\<close>

theorem C4_side_effect_before_speech:
  "(link e w = (Inr (url, err), w') \<and> truthy url \<longrightarrow>
      perform e (Some (asc ''link'')) w
        = (Inr Continue,
           w'\<lparr>log := log w' @ [OpenLink (py_str (repr e) url),
                   Speak (VStr (asc ''Opened link: '' @ py_str (repr e) url))]\<rparr>))
   \<and> (save e (asc ''dictionary_entries'') w = (Inr (ok, res), w') \<and> truthy ok \<longrightarrow>
      (\<exists>p. log w' = log w @ [WriteFile p]
         \<and> perform e (Some (asc ''save'')) w
             = (Inr Continue,
                w'\<lparr>log := log w @ [WriteFile p, Speak (VStr (asc ''Saved to '' @ p))]\<rparr>)))
   \<and> (show_image e v = (Inr (msg, err'), v') \<and> \<not> truthy err' \<longrightarrow>
      (\<exists>img. log v' = log v @ [ShowImage img]
         \<and> step_rm e ru_show v
             = (Inr Continue, v'\<lparr>log := log v @ [ShowImage img, Speak msg]\<rparr>)))
   \<and> (save_image e (asc ''images'') v = (Inr (path, err'), v') \<and> \<not> truthy err' \<longrightarrow>
      (\<exists>p. log v' = log v @ [WriteFile p]
         \<and> step_rm e ru_save v
             = (Inr Continue, v'\<lparr>log := log v @ [WriteFile p, Speak (VStr (ru_saved @ p))]\<rparr>)))
   \<and> (save e (asc ''dictionary_entries'') w = (Inl x, w') \<longrightarrow>
      perform e (Some (asc ''save'')) w = (Inl x, w'))
   \<and> (show_image e v = (Inl x, v') \<longrightarrow> step_rm e ru_show v = (Inl x, v'))
   \<and> (save_image e (asc ''images'') v = (Inl x, v') \<longrightarrow> step_rm e ru_save v = (Inl x, v'))"
proof (intro conjI impI)
  assume "link e w = (Inr (url, err), w') \<and> truthy url"
  then show "perform e (Some (asc ''link'')) w
        = (Inr Continue,
           w'\<lparr>log := log w' @ [OpenLink (py_str (repr e) url),
                   Speak (VStr (asc ''Opened link: '' @ py_str (repr e) url))]\<rparr>)"
    by (simp add: perform_def asc_def prog_defs webbrowser_open_def)
next
  assume a: "save e (asc ''dictionary_entries'') w = (Inr (ok, res), w') \<and> truthy ok"
  then obtain p where p: "res = VStr p" "log w' = log w @ [WriteFile p]"
    using save_effect by blast
  from a p have "perform e (Some (asc ''save'')) w
             = (Inr Continue,
                w'\<lparr>log := log w @ [WriteFile p, Speak (VStr (asc ''Saved to '' @ p))]\<rparr>)"
    by (simp add: perform_def asc_def prog_defs)
  with p show "\<exists>p. log w' = log w @ [WriteFile p]
         \<and> perform e (Some (asc ''save'')) w
             = (Inr Continue,
                w'\<lparr>log := log w @ [WriteFile p, Speak (VStr (asc ''Saved to '' @ p))]\<rparr>)"
    by blast
next
  assume a: "show_image e v = (Inr (msg, err'), v') \<and> \<not> truthy err'"
  then obtain img where i: "log v' = log v @ [ShowImage img]"
    using show_image_effect by blast
  from a i have "step_rm e ru_show v
             = (Inr Continue, v'\<lparr>log := log v @ [ShowImage img, Speak msg]\<rparr>)"
    by (simp add: step_rm_show speak_result_def prog_defs)
  with i show "\<exists>img. log v' = log v @ [ShowImage img]
         \<and> step_rm e ru_show v
             = (Inr Continue, v'\<lparr>log := log v @ [ShowImage img, Speak msg]\<rparr>)"
    by blast
next
  assume a: "save_image e (asc ''images'') v = (Inr (path, err'), v') \<and> \<not> truthy err'"
  then obtain p where p: "path = VStr p" "log v' = log v @ [WriteFile p]"
    using save_image_effect by blast
  from a p have "step_rm e ru_save v
             = (Inr Continue, v'\<lparr>log := log v @ [WriteFile p, Speak (VStr (ru_saved @ p))]\<rparr>)"
    by (simp add: step_rm_save speak_result_def prog_defs)
  with p show "\<exists>p. log v' = log v @ [WriteFile p]
         \<and> step_rm e ru_save v
             = (Inr Continue, v'\<lparr>log := log v @ [WriteFile p, Speak (VStr (ru_saved @ p))]\<rparr>)"
    by blast
next
  assume "save e (asc ''dictionary_entries'') w = (Inl x, w')"
  then show "perform e (Some (asc ''save'')) w = (Inl x, w')"
    by (simp add: perform_def asc_def prog_defs)
next
  assume "show_image e v = (Inl x, v')"
  then show "step_rm e ru_show v = (Inl x, v')"
    by (simp add: step_rm_show prog_defs)
next
  assume "save_image e (asc ''images'') v = (Inl x, v')"
  then show "step_rm e ru_save v = (Inl x, v')"
    by (simp add: step_rm_save prog_defs)
qed

lemma link_hello: "link online hello_world = (Inr (VStr hello_url, VNone), hello_world)"
  by (simp add: link_def hello_world_def dict_start_def hello_entry_def hello_url_def sbind_def)

lemma perform_link_hello:
  "perform online (Some (asc ''link'')) hello_world
     = (Inr Continue,
        hello_world\<lparr>log := [OpenLink hello_url, Speak (VStr (asc ''Opened link: '' @ hello_url))]\<rparr>)"
proof -
  have "hello_url \<noteq> []" by (simp add: hello_url_def BASE_URL_dict_def asc_def)
  moreover have "log hello_world = []" by (simp add: hello_world_def dict_start_def)
  ultimately show ?thesis
    by (simp add: perform_def asc_def prog_defs webbrowser_open_def link_hello)
qed

lemma show_image_rick:
  "show_image online rick_world
     = (Inr (VStr (asc ''Image displayed.''), VNone),
        rick_world\<lparr>requests := [avatar_url], log := [ShowImage avatar_bytes]\<rparr>)"
proof -
  have img: "subscript_str rick (asc ''image'') = Inr (VStr avatar_url)"
    by (simp add: rick_def asc_def)
  have srv: "served 0 avatar_url = Answered (ok_response avatar_bytes (Inl (asc ''Expecting value'')))"
    by (simp add: served_def avatar_url_def BASE_URL_dict_def BASE_URL_rm_def asc_def)
  have tr: "truthy rick" by (simp add: rick_def)
  show ?thesis
    unfolding show_image_def
    by (simp add: rick_world_def rm_start_def img tr bind_def lift_def ret_def requests_get_def
        online_def srv image_open_def ok_response_def)
qed

theorem C4_side_effect_before_speech_witness:
  "link online hello_world = (Inr (VStr hello_url, VNone), hello_world)
   \<and> truthy (VStr hello_url)
   \<and> perform online (Some (asc ''link'')) hello_world
        = (Inr Continue,
           hello_world\<lparr>log := log hello_world
              @ [OpenLink hello_url, Speak (VStr (asc ''Opened link: '' @ hello_url))]\<rparr>)
   \<and> show_image online rick_world
        = (Inr (VStr (asc ''Image displayed.''), VNone),
           rick_world\<lparr>requests := [avatar_url], log := [ShowImage avatar_bytes]\<rparr>)
   \<and> \<not> truthy VNone
   \<and> step_rm online ru_show rick_world
        = (Inr Continue,
           rick_world\<lparr>requests := [avatar_url],
              log := [ShowImage avatar_bytes, Speak (VStr (asc ''Image displayed.''))]\<rparr>)"
proof -
  have t: "truthy (VStr hello_url)"
    by (simp add: hello_url_def BASE_URL_dict_def asc_def)
  have l0: "log rick_world = []" by (simp add: rick_world_def rm_start_def)
  from C4_side_effect_before_speech
         [of online hello_world "VStr hello_url" VNone hello_world _ _ rick_world
             "VStr (asc ''Image displayed.'')" VNone
             "rick_world\<lparr>requests := [avatar_url], log := [ShowImage avatar_bytes]\<rparr>"]
  have a: "perform online (Some (asc ''link'')) hello_world
        = (Inr Continue,
           hello_world\<lparr>log := log hello_world
              @ [OpenLink hello_url, Speak (VStr (asc ''Opened link: '' @ hello_url))]\<rparr>)"
    and b: "\<exists>img. log (rick_world\<lparr>requests := [avatar_url], log := [ShowImage avatar_bytes]\<rparr>)
             = log rick_world @ [ShowImage img]
         \<and> step_rm online ru_show rick_world
             = (Inr Continue,
                rick_world\<lparr>requests := [avatar_url], log := [ShowImage avatar_bytes]\<rparr>
                  \<lparr>log := log rick_world @ [ShowImage img, Speak (VStr (asc ''Image displayed.''))]\<rparr>)"
    using link_hello show_image_rick t by simp_all
  from b l0 have "step_rm online ru_show rick_world
        = (Inr Continue,
           rick_world\<lparr>requests := [avatar_url],
              log := [ShowImage avatar_bytes, Speak (VStr (asc ''Image displayed.''))]\<rparr>)"
    by auto
  with a t link_hello show_image_rick show ?thesis by simp
qed

text \<open>
  C4 as stated fails: on the text "link", with the entry of "hello" selected, the browser
  is opened first and the message is spoken after it.
\<close>

theorem C4_link_opened_before_speech_counterexample:
  "main_dict online [asc ''link''] hello_world
     = (Ended, [],
        hello_world\<lparr>log := [OpenLink hello_url, Speak (VStr (asc ''Opened link: '' @ hello_url))]\<rparr>)"
proof -
  have "find_param (asc ''link'') = None" "strip (asc ''link'') = asc ''link''"
    by (simp_all add: find_param_def str_defs ru_find_def)
  moreover have "map_of COMMANDS_dict (asc ''link'') = Some (asc ''link'')"
    by (simp add: COMMANDS_dict_def asc_def ru_defs ru_meaning_def ru_example_def)
  ultimately have "step_dict online (asc ''link'') hello_world
     = (Inr Continue,
        hello_world\<lparr>log := [OpenLink hello_url, Speak (VStr (asc ''Opened link: '' @ hello_url))]\<rparr>)"
    by (simp add: step_dict_def perform_link_hello)
  then show ?thesis by (simp add: main_dict_def)
qed

text \<open>What one pass of each \<open>listen\<close> loop yields.\<close>

lemma listen_body_rm_cases:
  "fst (listen_body_rm k data d) =
     (if fst (AcceptWaveform k d data)
      then sbind (py_get (fst (Result k (snd (AcceptWaveform k d data)))) (asc ''text'') (VStr []))
             (\<lambda>t. case t of
                    VStr s \<Rightarrow> Inr (if strip s \<noteq> [] then Some (strip s) else None)
                  | _ \<Rightarrow> Inl AttributeError)
      else Inr None)"
  by (simp add: listen_body_rm_def Let_def split: prod.splits bool.splits)

lemma listen_body_dict_cases:
  "fst (listen_body_dict e k data d) =
     (if fst (AcceptWaveform k d data)
      then sbind (py_get (fst (Result k (snd (AcceptWaveform k d data)))) (asc ''text'') (VStr []))
             (\<lambda>t. case t of
                    VStr s \<Rightarrow> Inr (if strip s \<noteq> []
                                   then Some (lower (unicode_lower e) (strip s)) else None)
                  | _ \<Rightarrow> Inl AttributeError)
      else Inr None)"
  by (simp add: listen_body_dict_def Let_def split: prod.splits bool.splits)

lemma listen_body_main1_cases:
  "fst (listen_body_main1 k data d) =
     (if fst (AcceptWaveform k d data) \<and> data \<noteq> []
      then sbind (subscript_str (fst (Result k (snd (AcceptWaveform k d data)))) (asc ''text''))
             (\<lambda>t. Inr (if truthy t then Some t else None))
      else Inr None)"
  by (simp add: listen_body_main1_def split: prod.splits bool.splits)

lemma generate_yields:
  assumes "y \<in> set (fst (generate body frames d))"
    and step: "\<And>frame d y. fst (body frame d) = Inr (Some y) \<Longrightarrow> P y"
  shows "P y"
  using assms(1)
proof (induction frames arbitrary: d)
  case Nil
  then show ?case by simp
next
  case (Cons frame frames)
  obtain r d' where r: "body frame d = (r, d')" by (cases "body frame d")
  show ?case
  proof (cases r)
    case (Inl x)
    with r Cons.prems show ?thesis by simp
  next
    case (Inr opt)
    show ?thesis
    proof (cases opt)
      case None
      with r Inr Cons.prems have "y \<in> set (fst (generate body frames d'))" by simp
      then show ?thesis by (rule Cons.IH)
    next
      case (Some z)
      with r Inr have "fst (body frame d) = Inr (Some z)" by simp
      then have "P z" by (rule step)
      moreover from r Inr Some Cons.prems
      have "y = z \<or> y \<in> set (fst (generate body frames d'))"
        by (auto split: prod.splits)
      ultimately show ?thesis using Cons.IH by blast
    qed
  qed
qed

lemma listen_body_rm_nonempty:
  "fst (listen_body_rm k data d) = Inr (Some t) \<Longrightarrow> t \<noteq> []"
  by (auto simp add: listen_body_rm_cases sbind_def split: if_splits sum.splits val.splits)

lemma listen_body_dict_lowered:
  "fst (listen_body_dict e k data d) = Inr (Some y) \<Longrightarrow>
   \<exists>t. t \<noteq> [] \<and> y = lower (unicode_lower e) t"
  by (auto simp add: listen_body_dict_cases sbind_def split: if_splits sum.splits val.splits)

lemma listen_body_main1_truthy:
  "fst (listen_body_main1 k data d) = Inr (Some v) \<Longrightarrow> truthy v"
  by (auto simp add: listen_body_main1_cases sbind_def split: if_splits sum.splits)

text \<open>The generators, over all the frames: the texts of the finalised results, filtered.\<close>

lemma listen_rm_texts:
  assumes "\<forall>r \<in> set (finalisations k frames d).
             \<exists>s. py_get r (asc ''text'') (VStr []) = Inr (VStr s)"
  shows "listen_rm k frames d
     = (filter (\<lambda>t. t \<noteq> []) (map (\<lambda>r. strip (text_of r)) (finalisations k frames d)), None)"
  using assms
proof (induction frames arbitrary: d)
  case Nil
  then show ?case by (simp add: listen_rm_def)
next
  case (Cons frame frames)
  obtain b d1 where a: "AcceptWaveform k d frame = (b, d1)"
    by (cases "AcceptWaveform k d frame")
  show ?case
  proof (cases b)
    case False
    with a Cons.prems have "\<forall>r \<in> set (finalisations k frames d1).
             \<exists>s. py_get r (asc ''text'') (VStr []) = Inr (VStr s)"
      by simp
    then have "listen_rm k frames d1
       = (filter (\<lambda>t. t \<noteq> []) (map (\<lambda>r. strip (text_of r)) (finalisations k frames d1)), None)"
      by (rule Cons.IH)
    with a False show ?thesis
      by (simp add: listen_rm_def listen_body_rm_def)
  next
    case True
    obtain r d2 where res: "Result k d1 = (r, d2)" by (cases "Result k d1")
    from a True res have fin: "finalisations k (frame # frames) d = r # finalisations k frames d2"
      by simp
    from Cons.prems have all: "\<forall>r \<in> set (r # finalisations k frames d2).
             \<exists>s. py_get r (asc ''text'') (VStr []) = Inr (VStr s)"
      unfolding fin .
    then obtain s where s: "py_get r (asc ''text'') (VStr []) = Inr (VStr s)"
      by auto
    from all have "\<forall>r \<in> set (finalisations k frames d2).
             \<exists>s. py_get r (asc ''text'') (VStr []) = Inr (VStr s)"
      by simp
    then have ih: "listen_rm k frames d2
       = (filter (\<lambda>t. t \<noteq> []) (map (\<lambda>r. strip (text_of r)) (finalisations k frames d2)), None)"
      by (rule Cons.IH)
    from s have t: "text_of r = s" by (simp add: text_of_def)
    from a True res s ih [unfolded listen_rm_def] show ?thesis
      by (simp add: listen_rm_def listen_body_rm_def sbind_def fin t Let_def)
  qed
qed

lemma listen_dict_texts:
  assumes "\<forall>r \<in> set (finalisations k frames d).
             \<exists>s. py_get r (asc ''text'') (VStr []) = Inr (VStr s)"
  shows "listen_dict e k frames d
     = (map (lower (unicode_lower e))
          (filter (\<lambda>t. t \<noteq> []) (map (\<lambda>r. strip (text_of r)) (finalisations k frames d))), None)"
  using assms
proof (induction frames arbitrary: d)
  case Nil
  then show ?case by (simp add: listen_dict_def)
next
  case (Cons frame frames)
  obtain b d1 where a: "AcceptWaveform k d frame = (b, d1)"
    by (cases "AcceptWaveform k d frame")
  show ?case
  proof (cases b)
    case False
    with a Cons.prems have "\<forall>r \<in> set (finalisations k frames d1).
             \<exists>s. py_get r (asc ''text'') (VStr []) = Inr (VStr s)"
      by simp
    then have "listen_dict e k frames d1
       = (map (lower (unicode_lower e))
            (filter (\<lambda>t. t \<noteq> []) (map (\<lambda>r. strip (text_of r)) (finalisations k frames d1))), None)"
      by (rule Cons.IH)
    with a False show ?thesis
      by (simp add: listen_dict_def listen_body_dict_def)
  next
    case True
    obtain r d2 where res: "Result k d1 = (r, d2)" by (cases "Result k d1")
    from a True res have fin: "finalisations k (frame # frames) d = r # finalisations k frames d2"
      by simp
    from Cons.prems have all: "\<forall>r \<in> set (r # finalisations k frames d2).
             \<exists>s. py_get r (asc ''text'') (VStr []) = Inr (VStr s)"
      unfolding fin .
    then obtain s where s: "py_get r (asc ''text'') (VStr []) = Inr (VStr s)"
      by auto
    from all have "\<forall>r \<in> set (finalisations k frames d2).
             \<exists>s. py_get r (asc ''text'') (VStr []) = Inr (VStr s)"
      by simp
    then have ih: "listen_dict e k frames d2
       = (map (lower (unicode_lower e))
            (filter (\<lambda>t. t \<noteq> []) (map (\<lambda>r. strip (text_of r)) (finalisations k frames d2))), None)"
      by (rule Cons.IH)
    from s have t: "text_of r = s" by (simp add: text_of_def)
    from a True res s ih [unfolded listen_dict_def] show ?thesis
      by (simp add: listen_dict_def listen_body_dict_def sbind_def fin t Let_def)
  qed
qed

lemma listen_main1_texts:
  assumes "\<forall>frame \<in> set frames. frame \<noteq> []"
    and "\<forall>r \<in> set (finalisations k frames d). \<exists>t. subscript_str r (asc ''text'') = Inr t"
  shows "listen_main1 k frames d
     = (filter truthy (map text_item (finalisations k frames d)), None)"
  using assms
proof (induction frames arbitrary: d)
  case Nil
  then show ?case by (simp add: listen_main1_def)
next
  case (Cons frame frames)
  obtain b d1 where a: "AcceptWaveform k d frame = (b, d1)"
    by (cases "AcceptWaveform k d frame")
  from Cons.prems(1) have ne: "frame \<noteq> []" and rest: "\<forall>frame \<in> set frames. frame \<noteq> []"
    by simp_all
  show ?case
  proof (cases b)
    case False
    with a Cons.prems(2) have "\<forall>r \<in> set (finalisations k frames d1).
             \<exists>t. subscript_str r (asc ''text'') = Inr t"
      by simp
    with rest have "listen_main1 k frames d1
       = (filter truthy (map text_item (finalisations k frames d1)), None)"
      by (rule Cons.IH)
    with a False show ?thesis
      by (simp add: listen_main1_def listen_body_main1_def)
  next
    case True
    obtain r d2 where res: "Result k d1 = (r, d2)" by (cases "Result k d1")
    from a True res have fin: "finalisations k (frame # frames) d = r # finalisations k frames d2"
      by simp
    from Cons.prems(2) have all: "\<forall>r \<in> set (r # finalisations k frames d2).
             \<exists>t. subscript_str r (asc ''text'') = Inr t"
      unfolding fin .
    then obtain t where s: "subscript_str r (asc ''text'') = Inr t"
      by auto
    from all have "\<forall>r \<in> set (finalisations k frames d2).
             \<exists>t. subscript_str r (asc ''text'') = Inr t"
      by simp
    with rest have ih: "listen_main1 k frames d2
       = (filter truthy (map text_item (finalisations k frames d2)), None)"
      by (rule Cons.IH)
    from s have t: "text_item r = t" by (simp add: text_item_def)
    from a True res s ne ih [unfolded listen_main1_def] show ?thesis
      by (simp add: listen_main1_def listen_body_main1_def sbind_def fin t)
  qed
qed

text \<open>
  C7, as amended.  A pass of \<open>listen\<close> over a frame that does not complete an utterance
  yields nothing.  In \<open>Lab_10.py\<close> and \<open>Extra_.py\<close> a pass yields exactly when the decoder
  finalises a result whose text, trimmed of white space, is not empty, and what it
  yields is the trimmed text (in lower case in \<open>Extra_.py\<close>); in \<open>main1.py\<close> it yields
  exactly when the frame is not empty and the text is true (not empty), and yields it as
  it is.  Over all the frames the generator yields, in order, exactly the trimmed texts
  of the finalised results that are not empty after trimming (\<open>main1.py\<close>: the texts that
  are true), given that every result carries a text.  No text yielded is empty; in
  \<open>Extra_.py\<close> it is the lower case of a text that is not empty.
\<close>

theorem C7_listen_yields_finalised_nonblank_text:
  "(\<not> fst (AcceptWaveform k d data) \<longrightarrow>
      fst (listen_body_rm k data d) = Inr None
      \<and> fst (listen_body_dict e k data d) = Inr None
      \<and> fst (listen_body_main1 k data d) = Inr None)
   \<and> (fst (listen_body_rm k data d) = Inr (Some t) \<longleftrightarrow>
        fst (AcceptWaveform k d data)
        \<and> (\<exists>s. py_get (fst (Result k (snd (AcceptWaveform k d data)))) (asc ''text'') (VStr [])
                  = Inr (VStr s)
               \<and> strip s \<noteq> [] \<and> t = strip s))
   \<and> (fst (listen_body_dict e k data d) = Inr (Some t) \<longleftrightarrow>
        fst (AcceptWaveform k d data)
        \<and> (\<exists>s. py_get (fst (Result k (snd (AcceptWaveform k d data)))) (asc ''text'') (VStr [])
                  = Inr (VStr s)
               \<and> strip s \<noteq> [] \<and> t = lower (unicode_lower e) (strip s)))
   \<and> (fst (listen_body_main1 k data d) = Inr (Some v) \<longleftrightarrow>
        fst (AcceptWaveform k d data) \<and> data \<noteq> []
        \<and> subscript_str (fst (Result k (snd (AcceptWaveform k d data)))) (asc ''text'') = Inr v
        \<and> truthy v)
   \<and> ((\<forall>r \<in> set (finalisations k frames d).
          \<exists>s. py_get r (asc ''text'') (VStr []) = Inr (VStr s)) \<longrightarrow>
        listen_rm k frames d
          = (filter (\<lambda>t. t \<noteq> []) (map (\<lambda>r. strip (text_of r)) (finalisations k frames d)), None)
        \<and> listen_dict e k frames d
          = (map (lower (unicode_lower e))
               (filter (\<lambda>t. t \<noteq> []) (map (\<lambda>r. strip (text_of r)) (finalisations k frames d))),
             None))
   \<and> ((\<forall>frame \<in> set frames. frame \<noteq> [])
        \<and> (\<forall>r \<in> set (finalisations k frames d). \<exists>t. subscript_str r (asc ''text'') = Inr t) \<longrightarrow>
        listen_main1 k frames d
          = (filter truthy (map text_item (finalisations k frames d)), None))
   \<and> (\<forall>y \<in> set (fst (listen_rm k frames d)). y \<noteq> [])
   \<and> (\<forall>y \<in> set (fst (listen_dict e k frames d)).
         \<exists>t. t \<noteq> [] \<and> y = lower (unicode_lower e) t)
   \<and> (\<forall>y \<in> set (fst (listen_main1 k frames d)). truthy y)"
proof (intro conjI)
  show "\<not> fst (AcceptWaveform k d data) \<longrightarrow>
      fst (listen_body_rm k data d) = Inr None
      \<and> fst (listen_body_dict e k data d) = Inr None
      \<and> fst (listen_body_main1 k data d) = Inr None"
    by (simp add: listen_body_rm_cases listen_body_dict_cases listen_body_main1_cases)
next
  show "fst (listen_body_rm k data d) = Inr (Some t) \<longleftrightarrow>
        fst (AcceptWaveform k d data)
        \<and> (\<exists>s. py_get (fst (Result k (snd (AcceptWaveform k d data)))) (asc ''text'') (VStr [])
                  = Inr (VStr s)
               \<and> strip s \<noteq> [] \<and> t = strip s)"
    by (auto simp add: listen_body_rm_cases sbind_def split: if_splits sum.splits val.splits)
next
  show "fst (listen_body_dict e k data d) = Inr (Some t) \<longleftrightarrow>
        fst (AcceptWaveform k d data)
        \<and> (\<exists>s. py_get (fst (Result k (snd (AcceptWaveform k d data)))) (asc ''text'') (VStr [])
                  = Inr (VStr s)
               \<and> strip s \<noteq> [] \<and> t = lower (unicode_lower e) (strip s))"
    by (auto simp add: listen_body_dict_cases sbind_def split: if_splits sum.splits val.splits)
next
  show "fst (listen_body_main1 k data d) = Inr (Some v) \<longleftrightarrow>
        fst (AcceptWaveform k d data) \<and> data \<noteq> []
        \<and> subscript_str (fst (Result k (snd (AcceptWaveform k d data)))) (asc ''text'') = Inr v
        \<and> truthy v"
    by (auto simp add: listen_body_main1_cases sbind_def split: if_splits sum.splits)
next
  show "(\<forall>r \<in> set (finalisations k frames d).
          \<exists>s. py_get r (asc ''text'') (VStr []) = Inr (VStr s)) \<longrightarrow>
        listen_rm k frames d
          = (filter (\<lambda>t. t \<noteq> []) (map (\<lambda>r. strip (text_of r)) (finalisations k frames d)), None)
        \<and> listen_dict e k frames d
          = (map (lower (unicode_lower e))
               (filter (\<lambda>t. t \<noteq> []) (map (\<lambda>r. strip (text_of r)) (finalisations k frames d))),
             None)"
    using listen_rm_texts [of k frames d] listen_dict_texts [of k frames d e] by blast
next
  show "(\<forall>frame \<in> set frames. frame \<noteq> [])
        \<and> (\<forall>r \<in> set (finalisations k frames d). \<exists>t. subscript_str r (asc ''text'') = Inr t) \<longrightarrow>
        listen_main1 k frames d
          = (filter truthy (map text_item (finalisations k frames d)), None)"
    using listen_main1_texts [of frames k d] by blast
next
  show "\<forall>y \<in> set (fst (listen_rm k frames d)). y \<noteq> []"
  proof
    fix y
    assume "y \<in> set (fst (listen_rm k frames d))"
    then have "y \<in> set (fst (generate (listen_body_rm k) frames d))"
      by (simp add: listen_rm_def)
    then show "y \<noteq> []"
      by (rule generate_yields) (rule listen_body_rm_nonempty)
  qed
next
  show "\<forall>y \<in> set (fst (listen_dict e k frames d)).
         \<exists>t. t \<noteq> [] \<and> y = lower (unicode_lower e) t"
  proof
    fix y
    assume "y \<in> set (fst (listen_dict e k frames d))"
    then have "y \<in> set (fst (generate (listen_body_dict e k) frames d))"
      by (simp add: listen_dict_def)
    then show "\<exists>t. t \<noteq> [] \<and> y = lower (unicode_lower e) t"
      by (rule generate_yields) (rule listen_body_dict_lowered)
  qed
next
  show "\<forall>y \<in> set (fst (listen_main1 k frames d)). truthy y"
  proof
    fix y
    assume "y \<in> set (fst (listen_main1 k frames d))"
    then have "y \<in> set (fst (generate (listen_body_main1 k) frames d))"
      by (simp add: listen_main1_def)
    then show "truthy y"
      by (rule generate_yields) (rule listen_body_main1_truthy)
  qed
qed

lemma finalisations_pause:
  "finalisations pause_decoder [[5, 7], [5, 0], [3, 0]] 0
     = [VDict [(asc ''text'', VStr (asc '' exit ''))], VDict [(asc ''text'', VStr [])]]"
  by (simp add: pause_decoder_def)

theorem C7_listen_yields_finalised_nonblank_text_witness:
  "\<not> fst (AcceptWaveform pause_decoder 0 [5, 7])
   \<and> fst (listen_body_rm pause_decoder [5, 7] 0) = Inr None
   \<and> fst (listen_body_dict online pause_decoder [5, 7] 0) = Inr None
   \<and> fst (listen_body_main1 pause_decoder [5, 7] 0) = Inr None
   \<and> finalisations pause_decoder [[5, 7], [5, 0], [3, 0]] 0
        = [VDict [(asc ''text'', VStr (asc '' exit ''))], VDict [(asc ''text'', VStr [])]]
   \<and> listen_rm pause_decoder [[5, 7], [5, 0], [3, 0]] 0 = ([asc ''exit''], None)
   \<and> listen_dict online pause_decoder [[5, 7], [5, 0], [3, 0]] 0 = ([asc ''exit''], None)
   \<and> listen_main1 pause_decoder [[5, 7], [5, 0], [3, 0]] 0 = ([VStr (asc '' exit '')], None)"
proof -
  note inst = C7_listen_yields_finalised_nonblank_text
      [of pause_decoder 0 "[5, 7]" online "asc ''exit''" VNone "[[5, 7], [5, 0], [3, 0]]"]
  have a: "\<not> fst (AcceptWaveform pause_decoder 0 [5, 7])"
    by (simp add: pause_decoder_def)
  have texts: "\<forall>r \<in> set (finalisations pause_decoder [[5, 7], [5, 0], [3, 0]] 0).
          \<exists>s. py_get r (asc ''text'') (VStr []) = Inr (VStr s)"
    unfolding finalisations_pause by simp
  have items: "(\<forall>frame \<in> set [[5, 7], [5, 0], [3, 0::nat]]. frame \<noteq> [])
      \<and> (\<forall>r \<in> set (finalisations pause_decoder [[5, 7], [5, 0], [3, 0]] 0).
            \<exists>t. subscript_str r (asc ''text'') = Inr t)"
    unfolding finalisations_pause by simp
  have t1: "text_of (VDict [(asc ''text'', VStr (asc '' exit ''))]) = asc '' exit ''"
    "text_of (VDict [(asc ''text'', VStr [])]) = []"
    "text_item (VDict [(asc ''text'', VStr (asc '' exit ''))]) = VStr (asc '' exit '')"
    "text_item (VDict [(asc ''text'', VStr [])]) = VStr []"
    by (simp_all add: text_of_def text_item_def)
  have st: "strip (asc '' exit '') = asc ''exit''" "strip [] = []"
    "lower (unicode_lower online) (asc ''exit'') = asc ''exit''"
    "asc ''exit'' \<noteq> []" "asc '' exit '' \<noteq> []"
    by (simp_all add: str_defs)
  from inst a have n: "fst (listen_body_rm pause_decoder [5, 7] 0) = Inr None
      \<and> fst (listen_body_dict online pause_decoder [5, 7] 0) = Inr None
      \<and> fst (listen_body_main1 pause_decoder [5, 7] 0) = Inr None"
    by blast
  from inst texts have "listen_rm pause_decoder [[5, 7], [5, 0], [3, 0]] 0
      = (filter (\<lambda>t. t \<noteq> []) (map (\<lambda>r. strip (text_of r))
           (finalisations pause_decoder [[5, 7], [5, 0], [3, 0]] 0)), None)
    \<and> listen_dict online pause_decoder [[5, 7], [5, 0], [3, 0]] 0
      = (map (lower (unicode_lower online))
           (filter (\<lambda>t. t \<noteq> []) (map (\<lambda>r. strip (text_of r))
              (finalisations pause_decoder [[5, 7], [5, 0], [3, 0]] 0))), None)"
    by blast
  then have g: "listen_rm pause_decoder [[5, 7], [5, 0], [3, 0]] 0 = ([asc ''exit''], None)
    \<and> listen_dict online pause_decoder [[5, 7], [5, 0], [3, 0]] 0 = ([asc ''exit''], None)"
    unfolding finalisations_pause by (simp add: t1 st)
  from inst items have "listen_main1 pause_decoder [[5, 7], [5, 0], [3, 0]] 0
      = (filter truthy (map text_item
           (finalisations pause_decoder [[5, 7], [5, 0], [3, 0]] 0)), None)"
    by blast
  then have m: "listen_main1 pause_decoder [[5, 7], [5, 0], [3, 0]] 0
      = ([VStr (asc '' exit '')], None)"
    unfolding finalisations_pause by (simp add: t1 st)
  from a n g m finalisations_pause show ?thesis by blast
qed

text \<open>
  C7 as stated fails in \<open>Lab_10.py\<close> and \<open>Extra_.py\<close>: the decoder finalises a result
  whose text is one blank, which is not the empty text, and \<open>listen\<close> yields nothing.
\<close>

theorem C7_blank_text_counterexample:
  "AcceptWaveform blank_decoder 0 [1] = (True, 0)
   \<and> Result blank_decoder 0 = (VDict [(asc ''text'', VStr (asc '' ''))], 0)
   \<and> asc '' '' \<noteq> []
   \<and> listen_rm blank_decoder [[1]] 0 = ([], None)
   \<and> listen_dict online blank_decoder [[1]] 0 = ([], None)"
  by (simp add: blank_decoder_def listen_rm_def listen_dict_def listen_body_rm_def
      listen_body_dict_def sbind_def str_defs)

text \<open>What a successful \<open>find_word\<close>, \<open>save\<close> and \<open>save_image\<close> did.\<close>

lemma find_word_selects:
  assumes "find_word e word w0 = (Inr (VBool True, er), w)"
  shows "\<exists>r data. http e (length (requests w0)) (BASE_URL_dict @ word) = Answered r
           \<and> json r = Inr data \<and> subscript_idx data 0 = Inr (entry w)"
  using assms
  by (auto simp add: find_word_def get_json_def requests_get_def raise_for_status_def res_json_def
      bind_def lift_def ret_def
      split: if_splits sum.splits prod.splits http_result.splits exn.splits)

lemma save_writes_entry:
  assumes "save e folder w = (Inr (VBool True, VStr path), w')"
  shows "entry w' = entry w \<and> files w' path = Some (Text (json_dumps (entry w)))"
  using assms
  by (auto simp add: save_def bind_def lift_def ret_def makedirs_def write_text_def Let_def
      split: if_splits sum.splits prod.splits)

lemma save_image_writes_content:
  assumes "save_image e folder v = (Inr (VStr path, VNone), v')"
  shows "\<exists>url r. subscript_str (character v) (asc ''image'') = Inr url
           \<and> http e (length (requests v)) (py_str (repr e) url) = Answered r
           \<and> files v' path = Some (Binary (content r))"
  using assms
  by (auto simp add: save_image_def bind_def lift_def ret_def requests_get_def makedirs_def
      write_binary_def Let_def
      split: if_splits sum.splits prod.splits http_result.splits)

text \<open>
  C8.  A successful \<open>find_word\<close> selects the first item of the JSON body it fetched.
  After a successful \<open>save\<close> the file at the returned path holds the text that
  \<open>json.dump\<close> writes for exactly that entry, and \<open>json.loads\<close> of the text of that file
  is the entry again (an object of Python has no key twice: \<open>distinct_keys\<close>); the
  selection is unchanged.  After a successful \<open>save_image\<close> the file at the returned
  path holds the bytes that were fetched from the character's image URL, so its length
  is theirs.
\<close>

theorem C8_save_round_trip:
  "(find_word e word w0 = (Inr (VBool True, er), w) \<longrightarrow>
      (\<exists>r data. http e (length (requests w0)) (BASE_URL_dict @ word) = Answered r
           \<and> json r = Inr data \<and> subscript_idx data 0 = Inr (entry w)))
   \<and> (save e folder w = (Inr (VBool True, VStr path), w') \<longrightarrow>
        entry w' = entry w
        \<and> files w' path = Some (Text (json_dumps (entry w)))
        \<and> (distinct_keys (entry w) \<longrightarrow>
              (case files w' path of Some (Text s) \<Rightarrow> json_loads s | _ \<Rightarrow> None)
                = Some (entry w)))
   \<and> (save_image e folder' v = (Inr (VStr path', VNone), v') \<longrightarrow>
        (\<exists>url r fetched.
            subscript_str (character v) (asc ''image'') = Inr url
            \<and> http e (length (requests v)) (py_str (repr e) url) = Answered r
            \<and> files v' path' = Some (Binary fetched)
            \<and> fetched = content r \<and> length fetched = length (content r)))"
proof (intro conjI impI)
  assume "find_word e word w0 = (Inr (VBool True, er), w)"
  then show "\<exists>r data. http e (length (requests w0)) (BASE_URL_dict @ word) = Answered r
           \<and> json r = Inr data \<and> subscript_idx data 0 = Inr (entry w)"
    by (rule find_word_selects)
next
  assume "save e folder w = (Inr (VBool True, VStr path), w')"
  then have s: "entry w' = entry w \<and> files w' path = Some (Text (json_dumps (entry w)))"
    by (rule save_writes_entry)
  from s show "entry w' = entry w" by simp
  from s show "files w' path = Some (Text (json_dumps (entry w)))" by simp
  assume "distinct_keys (entry w)"
  with s show "(case files w' path of Some (Text s) \<Rightarrow> json_loads s | _ \<Rightarrow> None)
                = Some (entry w)"
    by (simp add: json_round_trip)
next
  assume "save_image e folder' v = (Inr (VStr path', VNone), v')"
  then have "\<exists>url r. subscript_str (character v) (asc ''image'') = Inr url
           \<and> http e (length (requests v)) (py_str (repr e) url) = Answered r
           \<and> files v' path' = Some (Binary (content r))"
    by (rule save_image_writes_content)
  then show "\<exists>url r fetched.
            subscript_str (character v) (asc ''image'') = Inr url
            \<and> http e (length (requests v)) (py_str (repr e) url) = Answered r
            \<and> files v' path' = Some (Binary fetched)
            \<and> fetched = content r \<and> length fetched = length (content r)"
    by blast
qed

lemma find_word_hello:
  "find_word online (asc ''hello'') dict_start
     = (Inr (VBool True, VNone), hello_world\<lparr>requests := [hello_url]\<rparr>)"
proof -
  have srv: "served 0 (BASE_URL_dict @ asc ''hello'')
      = Answered (ok_response [] (Inr (VList [hello_entry])))"
    by (simp add: served_def)
  show ?thesis
    by (simp add: find_word_def get_json_def requests_get_def raise_for_status_def res_json_def
        bind_def lift_def ret_def online_def srv ok_response_def dict_start_def hello_world_def
        hello_url_def)
qed

lemma json_dumps_hello: "json_dumps hello_entry = hello_text"
  by (simp add: json_dumps_def hello_entry_def hello_text_def json_string_def escape_char_def
      newline_indent_def asc_def eval_nat_numeral)

lemma distinct_keys_hello: "distinct_keys hello_entry"
  by (simp add: hello_entry_def asc_def)

lemma save_hello:
  "save online (asc ''dictionary_entries'') hello_world
     = (Inr (VBool True, VStr (asc ''dictionary_entries/hello.json'')),
        hello_world\<lparr>files := [asc ''dictionary_entries/hello.json'' \<mapsto> Text hello_text],
                     log := [WriteFile (asc ''dictionary_entries/hello.json'')]\<rparr>)"
proof -
  have wd: "py_get hello_entry (asc ''word'') (VStr (asc ''entry'')) = Inr (VStr (asc ''hello''))"
    by (simp add: hello_entry_def)
  have pth: "path_join (asc ''dictionary_entries'') (asc ''hello'' @ asc ''.json'')
      = asc ''dictionary_entries/hello.json''"
    by (simp add: path_join_def str_defs)
  have enc: "\<not> list_ex is_surrogate hello_text"
    by (simp add: hello_text_def asc_def is_surrogate_def)
  have opn: "open_for_writing online (asc ''dictionary_entries/hello.json'') = Inr ()"
    by (simp add: open_for_writing_def online_def asc_def unencodable_in_path_def
        is_surrogate_def)
  have tr: "truthy hello_entry" by (simp add: hello_entry_def)
  have st: "py_str (repr online) (VStr (asc ''hello'')) = asc ''hello''" by simp
  have mk: "makedirs_fails online = (\<lambda>p. False)" by (simp add: online_def)
  show ?thesis
    unfolding save_def
    by (simp add: hello_world_def dict_start_def tr wd bind_def lift_def ret_def makedirs_def
        mk st pth write_text_def enc opn json_dumps_hello Let_def del: py_str.simps)
qed

lemma save_image_rick:
  "save_image online (asc ''images'') rick_world
     = (Inr (VStr (asc ''images/Rick Sanchez.jpg''), VNone),
        rick_world\<lparr>requests := [avatar_url],
                    files := [asc ''images/Rick Sanchez.jpg'' \<mapsto> Binary avatar_bytes],
                    log := [WriteFile (asc ''images/Rick Sanchez.jpg'')]\<rparr>)"
proof -
  have img: "subscript_str rick (asc ''image'') = Inr (VStr avatar_url)"
    by (simp add: rick_def asc_def)
  have nm: "subscript_str rick (asc ''name'') = Inr (VStr (asc ''Rick Sanchez''))"
    by (simp add: rick_def asc_def)
  have srv: "served 0 avatar_url = Answered (ok_response avatar_bytes (Inl (asc ''Expecting value'')))"
    by (simp add: served_def avatar_url_def BASE_URL_dict_def BASE_URL_rm_def asc_def)
  have kept: "safe_items ascii_alnum (map (\<lambda>c. VStr [c]) (asc ''Rick Sanchez''))
      = Inr (map (\<lambda>c. [c]) (asc ''Rick Sanchez''))"
    by (simp add: asc_def ascii_alnum_def)
  have pth: "path_join (asc ''images'') (strip (asc ''Rick Sanchez'') @ asc ''.jpg'')
      = asc ''images/Rick Sanchez.jpg''"
    by (simp add: path_join_def str_defs)
  have tr: "truthy rick" by (simp add: rick_def)
  have opn: "open_for_writing online (asc ''images/Rick Sanchez.jpg'') = Inr ()"
    by (simp add: open_for_writing_def online_def asc_def unencodable_in_path_def
        is_surrogate_def)
  have mk: "makedirs_fails online = (\<lambda>p. False)" "http online = served"
    "isalnum online = ascii_alnum"
    by (simp_all add: online_def)
  show ?thesis
    unfolding save_image_def
    by (simp add: rick_world_def rm_start_def tr img nm bind_def lift_def ret_def makedirs_def
        requests_get_def mk srv kept pth write_binary_def opn ok_response_def Let_def)
qed

theorem C8_save_round_trip_witness:
  "find_word online (asc ''hello'') dict_start
     = (Inr (VBool True, VNone), hello_world\<lparr>requests := [hello_url]\<rparr>)
   \<and> save online (asc ''dictionary_entries'') hello_world
     = (Inr (VBool True, VStr (asc ''dictionary_entries/hello.json'')),
        hello_world\<lparr>files := [asc ''dictionary_entries/hello.json'' \<mapsto> Text hello_text],
                     log := [WriteFile (asc ''dictionary_entries/hello.json'')]\<rparr>)
   \<and> distinct_keys (entry hello_world)
   \<and> json_dumps hello_entry = hello_text
   \<and> json_loads hello_text = Some hello_entry
   \<and> (case files (hello_world\<lparr>files := [asc ''dictionary_entries/hello.json'' \<mapsto> Text hello_text],
                     log := [WriteFile (asc ''dictionary_entries/hello.json'')]\<rparr>)
               (asc ''dictionary_entries/hello.json'') of
         Some (Text s) \<Rightarrow> json_loads s
       | _ \<Rightarrow> None) = Some hello_entry
   \<and> save_image online (asc ''images'') rick_world
     = (Inr (VStr (asc ''images/Rick Sanchez.jpg''), VNone),
        rick_world\<lparr>requests := [avatar_url],
                    files := [asc ''images/Rick Sanchez.jpg'' \<mapsto> Binary avatar_bytes],
                    log := [WriteFile (asc ''images/Rick Sanchez.jpg'')]\<rparr>)
   \<and> files (rick_world\<lparr>requests := [avatar_url],
                    files := [asc ''images/Rick Sanchez.jpg'' \<mapsto> Binary avatar_bytes],
                    log := [WriteFile (asc ''images/Rick Sanchez.jpg'')]\<rparr>)
         (asc ''images/Rick Sanchez.jpg'') = Some (Binary avatar_bytes)"
proof -
  let ?w' = "hello_world\<lparr>files := [asc ''dictionary_entries/hello.json'' \<mapsto> Text hello_text],
                     log := [WriteFile (asc ''dictionary_entries/hello.json'')]\<rparr>"
  let ?v' = "rick_world\<lparr>requests := [avatar_url],
                    files := [asc ''images/Rick Sanchez.jpg'' \<mapsto> Binary avatar_bytes],
                    log := [WriteFile (asc ''images/Rick Sanchez.jpg'')]\<rparr>"
  have en: "entry hello_world = hello_entry" by (simp add: hello_world_def)
  have dk: "distinct_keys (entry hello_world)" by (simp add: en distinct_keys_hello)
  note inst = C8_save_round_trip
      [of online "asc ''hello''" dict_start VNone hello_world "asc ''dictionary_entries''"
          "asc ''dictionary_entries/hello.json''" ?w' "asc ''images''" rick_world
          "asc ''images/Rick Sanchez.jpg''" ?v']
  from inst save_hello dk
  have rd: "(case files ?w' (asc ''dictionary_entries/hello.json'') of
         Some (Text s) \<Rightarrow> json_loads s
       | _ \<Rightarrow> None) = Some (entry hello_world)"
    by blast
  have fl: "files ?w' (asc ''dictionary_entries/hello.json'') = Some (Text hello_text)"
    by simp
  from rd have ld: "json_loads hello_text = Some hello_entry"
    unfolding fl en by simp
  have "files ?v' (asc ''images/Rick Sanchez.jpg'') = Some (Binary avatar_bytes)"
    by simp
  with rd ld dk en json_dumps_hello find_word_hello save_hello save_image_rick show ?thesis
    by simp
qed

text \<open>The requests of \<open>_fetch\<close> and of \<open>random_character\<close>.\<close>

lemma fetch_world:
  "snd (fetch e ep w) = w\<lparr>requests := requests w @ [BASE_URL_rm @ asc ''/'' @ ep]\<rparr>"
  by (simp add: fetch_def get_json_def requests_get_def raise_for_status_def res_json_def
      bind_def lift_def split: http_result.splits sum.splits exn.splits prod.splits)

lemma fetch_returns: "\<exists>v. fst (fetch e ep w) = Inr v"
  by (simp add: fetch_def get_json_def requests_get_def raise_for_status_def res_json_def
      bind_def lift_def split: http_result.splits sum.splits exn.splits prod.splits)

lemma fetch_result:
  "\<exists>v. fetch e ep w = (Inr v, w\<lparr>requests := requests w @ [BASE_URL_rm @ asc ''/'' @ ep]\<rparr>)"
  using fetch_world [of e ep w] fetch_returns [of e ep w]
  by (metis prod.collapse)

lemma count_total_world: "snd (count_total e w) = w\<lparr>requests := requests w @ [count_url]\<rparr>"
proof -
  obtain v where "fetch e (asc ''character'') w
      = (Inr v, w\<lparr>requests := requests w @ [BASE_URL_rm @ asc ''/'' @ asc ''character'']\<rparr>)"
    using fetch_result by blast
  then show ?thesis
    by (simp add: count_total_def bind_def lift_def count_url_def split: sum.splits)
qed

lemma error_is_not_info: "asc ''error'' \<noteq> asc ''info''" "asc ''info'' \<noteq> asc ''error''"
  by (simp_all add: asc_def)

lemma count_total_fallback:
  assumes "query_failed (http e (length (requests w)) count_url)
           \<or> answered_without_count (http e (length (requests w)) count_url)"
  shows "fst (count_total e w) = Inr (VInt 826)"
proof (cases "http e (length (requests w)) count_url")
  case (Failed m)
  then show ?thesis
    by (simp add: count_total_def fetch_def get_json_def requests_get_def bind_def lift_def
        count_url_def error_is_not_info)
next
  case (Answered r)
  with assms show ?thesis
    by (auto simp add: count_total_def fetch_def get_json_def requests_get_def
        raise_for_status_def res_json_def bind_def lift_def count_url_def error_is_not_info
        query_failed_def answered_without_count_def
        split: sum.splits val.splits option.splits if_splits)
qed

lemma random_character_drawn:
  assumes "fst (count_total e w) = Inr tot" and "int_of_val tot = Inr n" and "1 \<le> n"
  shows "requests (snd (random_character e w))
           = requests w @ [count_url, character_url (1 + int (rng e (draws w) mod nat n))]"
proof -
  let ?w1 = "w\<lparr>requests := requests w @ [count_url]\<rparr>"
  let ?i = "1 + int (rng e (draws w) mod nat n)"
  let ?w2 = "?w1\<lparr>draws := Suc (draws w)\<rparr>"
  have c: "count_total e w = (Inr tot, ?w1)"
    using assms(1) count_total_world [of e w] by (metis prod.collapse)
  have r: "randint e 1 tot ?w1 = (Inr ?i, ?w2)"
    using assms(2,3) by (simp add: randint_def)
  obtain data where f: "fetch e (asc ''character/'' @ dec_int ?i) ?w2
      = (Inr data, ?w2\<lparr>requests := requests ?w2 @ [character_url ?i]\<rparr>)"
    using fetch_result [of e "asc ''character/'' @ dec_int ?i" ?w2]
    by (auto simp add: character_url_def)
  show ?thesis
    unfolding random_character_def
    by (simp add: bind_def c r f lift_def ret_def split: sum.splits)
qed

lemma random_character_not_drawn:
  assumes "fst (count_total e w) = Inl x
           \<or> (\<exists>tot. fst (count_total e w) = Inr tot
                \<and> (int_of_val tot = Inl x \<or> (\<exists>n. int_of_val tot = Inr n \<and> n < 1)))"
  shows "requests (snd (random_character e w)) = requests w @ [count_url]"
proof -
  let ?w1 = "w\<lparr>requests := requests w @ [count_url]\<rparr>"
  have c: "count_total e w = (fst (count_total e w), ?w1)"
    using count_total_world [of e w] by (metis prod.collapse)
  from assms show ?thesis
    unfolding random_character_def
    by (subst bind_def, subst c) (auto simp add: randint_def bind_def)
qed

lemma drawn_in_range:
  assumes "1 \<le> (n::int)"
  shows "1 \<le> 1 + int (k mod nat n) \<and> 1 + int (k mod nat n) \<le> n"
proof -
  from assms have "0 < nat n" by simp
  then have "k mod nat n < nat n" by simp
  with assms show ?thesis by linarith
qed

lemma count_total_live:
  assumes "answered_with_count (http e (length (requests w)) count_url) c"
  shows "fst (count_total e w) = Inr c"
proof (cases "http e (length (requests w)) count_url")
  case (Failed m)
  with assms show ?thesis by (simp add: answered_with_count_def)
next
  case (Answered r)
  with assms show ?thesis
    by (auto simp add: count_total_def fetch_def get_json_def requests_get_def
        raise_for_status_def res_json_def bind_def lift_def count_url_def
        answered_with_count_def
        split: sum.splits val.splits option.splits if_splits)
qed

text \<open>
  What \<open>random_character\<close> draws from.  When the count query is answered with a count,
  that count is the total.  When the query fails, or is answered with a JSON object that
  has no \<open>info\<close> or whose \<open>info\<close> is an object without \<open>count\<close>, the total is the
  constant 826.  Whenever the total is an integer that is at least 1, a character is
  requested and its id lies between 1 and the total; and whenever \<open>random_character\<close>
  requests a character at all, the id in the URL lies between 1 and the total it used.
\<close>

lemma random_character_total_and_draw:
  "(answered_with_count (http e (length (requests w)) count_url) c \<longrightarrow>
      fst (count_total e w) = Inr c)
   \<and> (query_failed (http e (length (requests w)) count_url)
      \<or> answered_without_count (http e (length (requests w)) count_url) \<longrightarrow>
      fst (count_total e w) = Inr (VInt 826))
   \<and> (fst (count_total e w) = Inr (VInt n) \<and> 1 \<le> n \<longrightarrow>
      (\<exists>i. 1 \<le> i \<and> i \<le> n
         \<and> requests (snd (random_character e w)) = requests w @ [count_url, character_url i]))
   \<and> (requests (snd (random_character e w)) = requests w @ [count_url, u] \<longrightarrow>
      (\<exists>tot m i. fst (count_total e w) = Inr tot \<and> int_of_val tot = Inr m
         \<and> 1 \<le> i \<and> i \<le> m \<and> u = character_url i))"
proof (intro conjI impI)
  assume "answered_with_count (http e (length (requests w)) count_url) c"
  then show "fst (count_total e w) = Inr c"
    by (rule count_total_live)
next
  assume "query_failed (http e (length (requests w)) count_url)
      \<or> answered_without_count (http e (length (requests w)) count_url)"
  then show "fst (count_total e w) = Inr (VInt 826)"
    by (rule count_total_fallback)
next
  assume a: "fst (count_total e w) = Inr (VInt n) \<and> 1 \<le> n"
  then have "requests (snd (random_character e w))
           = requests w @ [count_url, character_url (1 + int (rng e (draws w) mod nat n))]"
    using random_character_drawn [of e w "VInt n" n] by simp
  with a drawn_in_range [of n "rng e (draws w)"]
  show "\<exists>i. 1 \<le> i \<and> i \<le> n
         \<and> requests (snd (random_character e w)) = requests w @ [count_url, character_url i]"
    by blast
next
  assume a: "requests (snd (random_character e w)) = requests w @ [count_url, u]"
  show "\<exists>tot m i. fst (count_total e w) = Inr tot \<and> int_of_val tot = Inr m
         \<and> 1 \<le> i \<and> i \<le> m \<and> u = character_url i"
  proof (cases "fst (count_total e w)")
    case (Inl x)
    then have "requests (snd (random_character e w)) = requests w @ [count_url]"
      using random_character_not_drawn [of e w x] by simp
    with a show ?thesis by simp
  next
    case (Inr tot)
    show ?thesis
    proof (cases "int_of_val tot")
      case (Inl x)
      with Inr have "requests (snd (random_character e w)) = requests w @ [count_url]"
        using random_character_not_drawn [of e w x] by simp
      with a show ?thesis by simp
    next
      case int: (Inr m)
      show ?thesis
      proof (cases "1 \<le> m")
        case True
        with Inr int have "requests (snd (random_character e w))
           = requests w @ [count_url, character_url (1 + int (rng e (draws w) mod nat m))]"
          by (rule random_character_drawn)
        with a have "u = character_url (1 + int (rng e (draws w) mod nat m))" by simp
        with Inr int True drawn_in_range [of m "rng e (draws w)"] show ?thesis by blast
      next
        case False
        with Inr int have "requests (snd (random_character e w)) = requests w @ [count_url]"
          using random_character_not_drawn [of e w undefined] by auto
        with a show ?thesis by simp
      qed
    qed
  qed
qed

lemma count_url_neq_character_url: "count_url \<noteq> character_url i"
  by (simp add: count_url_def character_url_def asc_def)

lemma served_count:
  "served n count_url = Answered (ok_response [] (Inr count_body))"
  by (simp add: served_def count_url_def BASE_URL_rm_def BASE_URL_dict_def asc_def)

lemma count_total_offline:
  "count_total offline w = (Inr (VInt 826), w\<lparr>requests := requests w @ [count_url]\<rparr>)"
proof -
  have "query_failed (http offline (length (requests w)) count_url)"
    by (simp add: query_failed_def offline_def)
  then have "fst (count_total offline w) = Inr (VInt 826)"
    by (simp add: count_total_fallback)
  then show ?thesis
    using count_total_world [of offline w] by (metis prod.collapse)
qed

lemma count_total_nameless:
  "count_total nameless w = (Inr (VInt 826), w\<lparr>requests := requests w @ [count_url]\<rparr>)"
proof -
  have "http nameless (length (requests w)) count_url = Answered (ok_response [] (Inr count_body))"
    by (simp add: nameless_def online_def served_count count_url_neq_character_url)
  then have "fst (count_total nameless w) = Inr (VInt 826)"
    by (simp add: count_total_def fetch_def get_json_def requests_get_def raise_for_status_def
        res_json_def bind_def lift_def count_url_def ok_response_def count_body_def)
  then show ?thesis
    using count_total_world [of nameless w] by (metis prod.collapse)
qed

lemma count_total_online:
  "count_total online w = (Inr (VInt 826), w\<lparr>requests := requests w @ [count_url]\<rparr>)"
proof -
  have "answered_with_count (http online (length (requests w)) count_url) (VInt 826)"
    by (simp add: answered_with_count_def online_def served_count ok_response_def count_body_def)
  then have "fst (count_total online w) = Inr (VInt 826)"
    by (rule count_total_live)
  then show ?thesis
    using count_total_world [of online w] by (metis prod.collapse)
qed

text \<open>
  C9 at a count answer without a count: the count query is answered with the JSON
  object whose \<open>info\<close> is \<open>null\<close>.  The constant 826 is not used:
  \<open>info.get('info', {}).get('count', 826)\<close> raises \<open>AttributeError\<close>, no id is drawn and
  no character is requested, and the session loop ends with the exception, the next text
  unread.  When the query fails on the network, the same two statements do give 826.
\<close>

theorem C9_null_info_raises:
  "http null_info (length (requests rm_start)) count_url
     = Answered (ok_response [] (Inr (VDict [(asc ''info'', VNone)])))
   \<and> count_total null_info rm_start
     = (Inl AttributeError, rm_start\<lparr>requests := [count_url]\<rparr>)
   \<and> random_character null_info rm_start
     = (Inl AttributeError, rm_start\<lparr>requests := [count_url]\<rparr>)
   \<and> main_rm null_info [ru_random, ru_exit] rm_start
     = (Crashed AttributeError, [ru_exit], rm_start\<lparr>requests := [count_url]\<rparr>)
   \<and> count_total offline rm_start
     = (Inr (VInt 826), rm_start\<lparr>requests := [count_url]\<rparr>)"
proof -
  have h: "http null_info (length (requests rm_start)) count_url
     = Answered (ok_response [] (Inr (VDict [(asc ''info'', VNone)])))"
    by (simp add: null_info_def online_def)
  then have "fst (count_total null_info rm_start) = Inl AttributeError"
    by (simp add: count_total_def fetch_def get_json_def requests_get_def raise_for_status_def
        res_json_def bind_def lift_def count_url_def ok_response_def)
  then have c: "count_total null_info rm_start
      = (Inl AttributeError, rm_start\<lparr>requests := requests rm_start @ [count_url]\<rparr>)"
    using count_total_world [of null_info rm_start] by (metis prod.collapse)
  have r0: "requests rm_start = []" by (simp add: rm_start_def)
  have c': "count_total null_info rm_start
      = (Inl AttributeError, rm_start\<lparr>requests := [count_url]\<rparr>)"
    using c by (simp add: r0)
  have rc: "random_character null_info rm_start
     = (Inl AttributeError, rm_start\<lparr>requests := [count_url]\<rparr>)"
    unfolding random_character_def
    by (subst bind_def, subst c) (simp add: rm_start_def)
  have chain: "\<And>full. \<not> contains (lower full ru_random) ru_exit
      \<and> \<not> contains (lower full ru_random) ru_farewell
      \<and> contains (lower full ru_random) ru_random"
    by (simp add: str_defs ru_defs)
  then have "step_rm null_info ru_random rm_start
     = (Inl AttributeError, rm_start\<lparr>requests := [count_url]\<rparr>)"
    by (simp add: step_rm_def Let_def bind_def rc)
  then have mn: "main_rm null_info [ru_random, ru_exit] rm_start
     = (Crashed AttributeError, [ru_exit], rm_start\<lparr>requests := [count_url]\<rparr>)"
    by (simp add: main_rm_def)
  have off: "count_total offline rm_start
     = (Inr (VInt 826), rm_start\<lparr>requests := [count_url]\<rparr>)"
    using count_total_offline [of rm_start] by (simp add: r0)
  from h c' rc mn off show ?thesis by blast
qed

text \<open>
  C10 at a malformed body: with Rick selected, the character request is answered with a
  JSON object that has no \<open>name\<close>.  \<open>random_character\<close> has already stored that object
  as the selection when \<open>data['name']\<close> raises \<open>KeyError\<close>: no error result is returned
  and the previous selection is lost.  On a network failure the same call returns the
  error message and leaves the selection as it was.
\<close>

theorem C10_selection_overwritten_by_malformed_body:
  "character rick_world = rick
   \<and> random_character nameless rick_world
     = (Inl KeyError,
        rick_world\<lparr>requests := [count_url, character_url 42], draws := 1,
                    character := VDict [(asc ''id'', VInt 42)]\<rparr>)
   \<and> random_character offline rick_world
     = (Inr (VNone, VStr (asc ''Connection refused'')),
        rick_world\<lparr>requests := [count_url, character_url 42], draws := 1\<rparr>)"
proof -
  let ?w1 = "rick_world\<lparr>requests := [count_url]\<rparr>"
  let ?w2 = "rick_world\<lparr>requests := [count_url], draws := Suc 0\<rparr>"
  have r0: "requests rick_world = []" "draws rick_world = 0" "character rick_world = rick"
    by (simp_all add: rick_world_def rm_start_def)
  have c1: "count_total nameless rick_world = (Inr (VInt 826), ?w1)"
    using count_total_nameless [of rick_world] by (simp add: r0)
  have c2: "count_total offline rick_world = (Inr (VInt 826), ?w1)"
    using count_total_offline [of rick_world] by (simp add: r0)
  have d1: "randint nameless 1 (VInt 826) ?w1 = (Inr 42, ?w2)"
    by (simp add: randint_def nameless_def online_def r0)
  have d2: "randint offline 1 (VInt 826) ?w1 = (Inr 42, ?w2)"
    by (simp add: randint_def offline_def r0)
  have u: "BASE_URL_rm @ asc ''/'' @ asc ''character/'' @ dec_int 42 = character_url 42"
    by (simp add: character_url_def)
  have f1: "fetch nameless (asc ''character/'' @ dec_int 42) ?w2
      = (Inr (VDict [(asc ''id'', VInt 42)]),
         rick_world\<lparr>requests := [count_url, character_url 42], draws := Suc 0\<rparr>)"
    by (simp add: fetch_def get_json_def requests_get_def raise_for_status_def res_json_def
        bind_def lift_def u nameless_def online_def ok_response_def)
  have f2: "fetch offline (asc ''character/'' @ dec_int 42) ?w2
      = (Inr (VDict [(asc ''error'', VStr (asc ''Connection refused''))]),
         rick_world\<lparr>requests := [count_url, character_url 42], draws := Suc 0\<rparr>)"
    by (simp add: fetch_def get_json_def requests_get_def bind_def lift_def u offline_def)
  have k: "asc ''error'' \<noteq> asc ''id''" "asc ''name'' \<noteq> asc ''id''"
    by (simp_all add: asc_def)
  have a: "random_character nameless rick_world
     = (Inl KeyError,
        rick_world\<lparr>requests := [count_url, character_url 42], draws := Suc 0,
                    character := VDict [(asc ''id'', VInt 42)]\<rparr>)"
    unfolding random_character_def
    by (simp add: bind_def c1 d1 f1 lift_def ret_def k)
  have b: "random_character offline rick_world
     = (Inr (VNone, VStr (asc ''Connection refused'')),
        rick_world\<lparr>requests := [count_url, character_url 42], draws := Suc 0\<rparr>)"
    unfolding random_character_def
    by (simp add: bind_def c2 d2 f2 lift_def ret_def)
  from r0 a b show ?thesis by simp
qed

end
